theory Spec2Isabelle
  imports Complex_Main "HOL-Library.Char_ord" "HOL-Library.List_Lexorder"
begin

section \<open>Python values used by app.py\<close>

text \<open>
  Scores are Python floats, modelled as reals. The two float operations of the
  normalisation, \<open>sum\<close> and \<open>/\<close>, round; they are parameters of \<open>normalize_fl\<close>,
  constrained by \<open>float_ops\<close>. The one place where a float operation leaves the reals (a
  division by a zero peak in \<open>preprocess_audio\<close>) is modelled by the explicit type
  \<open>npfloat\<close>. A \<open>dict\<close> is an association list in insertion order, since iteration
  order decides what \<open>max(emotions, key=emotions.get)\<close> returns.
\<close>

datatype py_error = ValueError | IndexError | KeyError | JSONDecodeError | ClassifierError

type_synonym emotions = "(string \<times> real) list"

text \<open>\<open>d[k] = v\<close>: an existing key keeps its position, a new key goes to the end.\<close>

fun dict_set :: "'k \<Rightarrow> 'v \<Rightarrow> ('k \<times> 'v) list \<Rightarrow> ('k \<times> 'v) list" where
  "dict_set k v [] = [(k, v)]"
| "dict_set k v (p # d) = (if fst p = k then (fst p, v) # d else p # dict_set k v d)"

text \<open>\<open>k in d\<close>.\<close>

definition dict_in :: "'k \<Rightarrow> ('k \<times> 'v) list \<Rightarrow> bool" where
  "dict_in k d = (k \<in> set (map fst d))"

text \<open>
  A recording is the dict built in \<open>save_recording\<close>; the session state holds what
  \<open>st.session_state\<close> holds.
\<close>

record recording =
  timestamp :: string
  emotions :: emotions
  dominant_emotion :: string
  confidence :: real
  intensity :: real
  audio_path :: string
  language :: string

record session_state =
  recordings :: "recording list"
  selected_language :: string
  hf_token :: string

text \<open>The dict written to \<open>feedback.jsonl\<close>, one per line.\<close>

record feedback =
  recording_idx :: nat
  predicted_emotion :: string
  correct_emotion :: string
  is_correct :: bool
  feedback_text :: string
  helpfulness :: int
  feedback_timestamp :: string

text \<open>\<open>str.lower()\<close> on ASCII letters; other characters are left as they are.\<close>

definition lower_char :: "char \<Rightarrow> char" where
  "lower_char c =
     (case map_of (zip ''ABCDEFGHIJKLMNOPQRSTUVWXYZ'' ''abcdefghijklmnopqrstuvwxyz'') c of
        None \<Rightarrow> c
      | Some d \<Rightarrow> d)"

definition lower :: "string \<Rightarrow> string" where
  "lower s = map lower_char s"

text \<open>\<open>needle in haystack\<close> on strings: a contiguous substring test.\<close>

fun starts_with :: "string \<Rightarrow> string \<Rightarrow> bool" where
  "starts_with [] ys = True"
| "starts_with (x # xs) [] = False"
| "starts_with (x # xs) (y # ys) = (x = y \<and> starts_with xs ys)"

fun contains :: "string \<Rightarrow> string \<Rightarrow> bool" where
  "contains ns [] = (ns = [])"
| "contains ns (h # hs) = (starts_with ns (h # hs) \<or> contains ns hs)"

section \<open>get_emotion_from_huggingface\<close>

text \<open>The keys of \<open>EMOTION_CONFIG\<close>, in the order of the dict literal.\<close>

definition EMOTION_CONFIG_keys :: "string list" where
  "EMOTION_CONFIG_keys =
     [''Anger'', ''Disgust'', ''Fear'', ''Happiness'', ''Neutral'', ''Sadness'', ''Surprise'']"

text \<open>The body of \<open>for item in result\<close>: the \<open>if\<close>/\<open>elif\<close> chain, each branch an assignment.\<close>

definition map_label :: "emotions \<Rightarrow> string \<times> real \<Rightarrow> emotions" where
  "map_label ems item =
     (let label = fst item; score = snd item in
      if contains ''anger'' (lower label) then dict_set ''Anger'' score ems
      else if contains ''disgust'' (lower label) then dict_set ''Disgust'' score ems
      else if contains ''fear'' (lower label) then dict_set ''Fear'' score ems
      else if contains ''happy'' (lower label) \<or> contains ''joy'' (lower label)
        then dict_set ''Happiness'' score ems
      else if contains ''neutral'' (lower label) then dict_set ''Neutral'' score ems
      else if contains ''sad'' (lower label) then dict_set ''Sadness'' score ems
      else if contains ''surprise'' (lower label) then dict_set ''Surprise'' score ems
      else ems)"

text \<open>The loop over the classifier's items, starting from \<open>emotions = {}\<close>.\<close>

definition raw_scores :: "(string \<times> real) list \<Rightarrow> emotions" where
  "raw_scores result = foldl map_label [] result"

text \<open>\<open>for emotion in EMOTION_CONFIG.keys(): if emotion not in emotions: emotions[emotion] = 0.0\<close>\<close>

definition fill_missing :: "emotions \<Rightarrow> string \<Rightarrow> emotions" where
  "fill_missing d emotion = (if \<not> dict_in emotion d then dict_set emotion 0 d else d)"

definition ensure_present :: "emotions \<Rightarrow> emotions" where
  "ensure_present ems = foldl fill_missing ems EMOTION_CONFIG_keys"

text \<open>
  \<open>total = sum(emotions.values()); if total > 0: emotions = {k: v/total ...}\<close>, with
  Python's \<open>sum\<close> over floats as \<open>fsum\<close> and its float division as \<open>fdiv\<close>.
\<close>

definition normalize_fl ::
  "(real list \<Rightarrow> real) \<Rightarrow> (real \<Rightarrow> real \<Rightarrow> real) \<Rightarrow> emotions \<Rightarrow> emotions" where
  "normalize_fl fsum fdiv ems =
     (let total = fsum (map snd ems) in
      if total > 0 then map (\<lambda>(k, v). (k, fdiv v total)) ems else ems)"

text \<open>
  What is known of the two operations on the values that occur here. The dict has seven
  values; with scores in [0, 1] the sum cannot overflow, each of its six additions has a
  relative error of at most 2 to the power -53, and the compensated summation of newer
  interpreters is more accurate still. A quotient is correctly rounded: its relative
  error is at most 2 to the power -53, or its absolute error at most 2 to the power
  -1075 where it underflows.
\<close>

definition unit_roundoff :: real where
  "unit_roundoff = 1 / 2 ^ 53"

definition underflow_unit :: real where
  "underflow_unit = 1 / 2 ^ 1075"

definition float_ops :: "(real list \<Rightarrow> real) \<Rightarrow> (real \<Rightarrow> real \<Rightarrow> real) \<Rightarrow> bool" where
  "float_ops fsum fdiv \<longleftrightarrow>
     (\<forall>xs. length xs = 7 \<and> (\<forall>x\<in>set xs. 0 \<le> x \<and> x \<le> 2) \<longrightarrow>
        \<bar>fsum xs - sum_list xs\<bar> \<le> 7 * unit_roundoff * sum_list xs) \<and>
     (\<forall>a b. 0 \<le> a \<and> 0 < b \<and> a \<le> 2 * b \<longrightarrow>
        0 \<le> fdiv a b \<and>
        \<bar>fdiv a b - a / b\<bar> \<le> unit_roundoff * (a / b) + underflow_unit)"

text \<open>
  The normalisation when neither operation rounds. It is used below for what does not
  depend on how a quotient is rounded: which keys the vector has and in which order, and
  examples whose values divide without rounding.
\<close>

definition normalize :: "emotions \<Rightarrow> emotions" where
  "normalize ems = normalize_fl sum_list (\<lambda>a b. a / b) ems"

text \<open>
  Lines 154 to 184: what the function returns once the classifier has answered. The
  specification calls this step \<open>reconcile\<close>.
\<close>

definition reconcile_fl ::
  "(real list \<Rightarrow> real) \<Rightarrow> (real \<Rightarrow> real \<Rightarrow> real) \<Rightarrow> (string \<times> real) list \<Rightarrow> emotions" where
  "reconcile_fl fsum fdiv result = normalize_fl fsum fdiv (ensure_present (raw_scores result))"

definition reconcile :: "(string \<times> real) list \<Rightarrow> emotions" where
  "reconcile result = normalize (ensure_present (raw_scores result))"

text \<open>
  The whole function. \<open>token\<close> is the session's \<open>hf_token\<close>; \<open>api_result\<close> is what
  \<open>client.audio_classification\<close> does, \<open>Inl\<close> when it (or opening the file) raises.
  The function returns \<open>None\<close> on either failure.
\<close>

definition get_emotion_from_huggingface ::
  "string \<Rightarrow> py_error + (string \<times> real) list \<Rightarrow> emotions option" where
  "get_emotion_from_huggingface token api_result =
     (if token = [] then None
      else case api_result of
             Inl e \<Rightarrow> None
           | Inr result \<Rightarrow> Some (reconcile result))"

section \<open>The branch order as a table\<close>

text \<open>
  The substring tests of the chain in their order, each with the slot it assigns. This
  table is the reading of the chain that the properties below are stated against.
\<close>

definition branch_table :: "(string \<times> string) list" where
  "branch_table =
     [(''anger'', ''Anger''), (''disgust'', ''Disgust''), (''fear'', ''Fear''),
      (''happy'', ''Happiness''), (''joy'', ''Happiness''), (''neutral'', ''Neutral''),
      (''sad'', ''Sadness''), (''surprise'', ''Surprise'')]"

definition first_branch :: "string \<Rightarrow> string option" where
  "first_branch label =
     map_option snd (find (\<lambda>b. contains (fst b) (lower label)) branch_table)"

text \<open>
  Two readings of a slot's score before normalisation, for a classifier output in which
  several labels fall into the same slot: the score of the last such label, and the sum
  of their scores (the wording of the specification).
\<close>

definition last_score :: "string \<Rightarrow> (string \<times> real) list \<Rightarrow> real option" where
  "last_score slot result =
     map_option snd (find (\<lambda>item. first_branch (fst item) = Some slot) (rev result))"

definition summed_score :: "string \<Rightarrow> (string \<times> real) list \<Rightarrow> real" where
  "summed_score slot result =
     sum_list (map snd (filter (\<lambda>item. first_branch (fst item) = Some slot) result))"

section \<open>save_recording and the analysis step of main\<close>

text \<open>
  \<open>max(emotions, key=emotions.get)\<close>: Python's \<open>max\<close> walks the dict in insertion order
  and replaces its candidate only by a strictly greater one, so the first key among
  equal maxima is returned. On an empty dict it raises \<open>ValueError\<close>.
\<close>

definition keep_greater :: "string \<times> real \<Rightarrow> string \<times> real \<Rightarrow> string \<times> real" where
  "keep_greater best q = (if snd best < snd q then q else best)"

fun max_key :: "emotions \<Rightarrow> py_error + string" where
  "max_key [] = Inl ValueError"
| "max_key (p # d) = Inr (fst (foldl keep_greater p d))"

text \<open>\<open>max(emotions.values())\<close>\<close>

fun max_value :: "emotions \<Rightarrow> py_error + real" where
  "max_value [] = Inl ValueError"
| "max_value (p # d) = Inr (foldl max (snd p) (map snd d))"

text \<open>
  \<open>save_recording\<close>: \<open>now\<close> is \<open>datetime.now().isoformat()\<close>; the new recording is
  appended to the session's list.
\<close>

definition save_recording ::
  "emotions \<Rightarrow> string \<Rightarrow> real \<Rightarrow> string \<Rightarrow> session_state \<Rightarrow> py_error + session_state" where
  "save_recording ems path inten now st =
     (case max_key ems of
        Inl e \<Rightarrow> Inl e
      | Inr dominant \<Rightarrow>
          (case max_value ems of
             Inl e \<Rightarrow> Inl e
           | Inr conf \<Rightarrow>
               Inr (st\<lparr>recordings := recordings st @
                     [\<lparr>timestamp = now, emotions = ems, dominant_emotion = dominant,
                       confidence = conf, intensity = inten, audio_path = path,
                       language = selected_language st\<rparr>]\<rparr>)))"

text \<open>
  Lines 478 to 484 of \<open>main\<close>: the classification and \<open>if emotions: save_recording(...)\<close>.
  \<open>None\<close> and the empty dict are both false in Python.
\<close>

definition analyze ::
  "session_state \<Rightarrow> string \<Rightarrow> real \<Rightarrow> string \<Rightarrow> py_error + (string \<times> real) list
     \<Rightarrow> py_error + session_state" where
  "analyze st path inten now api_result =
     (case get_emotion_from_huggingface (hf_token st) api_result of
        None \<Rightarrow> Inr st
      | Some ems \<Rightarrow> if ems = [] then Inr st else save_recording ems path inten now st)"

section \<open>The confidence buttons\<close>

text \<open>
  \<open>recordings[-1]['confidence'] *= factor\<close>, with 1.1 behind "Increase Confidence" and
  0.9 behind "Decrease Confidence". \<open>recordings[-1]\<close> raises \<open>IndexError\<close> on an empty
  list. The product is taken in the reals; nothing below depends on how it is rounded.
\<close>

definition scale_confidence :: "real \<Rightarrow> session_state \<Rightarrow> py_error + session_state" where
  "scale_confidence factor st =
     (if recordings st = [] then Inl IndexError
      else Inr (st\<lparr>recordings :=
             (recordings st)[length (recordings st) - 1 :=
                (last (recordings st))\<lparr>confidence :=
                    confidence (last (recordings st)) * factor\<rparr>]\<rparr>))"

definition increase_confidence :: "session_state \<Rightarrow> py_error + session_state" where
  "increase_confidence st = scale_confidence 1.1 st"

definition decrease_confidence :: "session_state \<Rightarrow> py_error + session_state" where
  "decrease_confidence st = scale_confidence 0.9 st"

text \<open>
  "Reset": \<open>recordings[-1]['confidence'] = max(emotions.values())\<close>, where \<open>emotions\<close> is
  the dict of the current run, the one \<open>save_recording\<close> has just stored. The right-hand
  side is evaluated first.
\<close>

definition reset_confidence :: "emotions \<Rightarrow> session_state \<Rightarrow> py_error + session_state" where
  "reset_confidence ems st =
     (case max_value ems of
        Inl e \<Rightarrow> Inl e
      | Inr m \<Rightarrow>
          if recordings st = [] then Inl IndexError
          else Inr (st\<lparr>recordings :=
                 (recordings st)[length (recordings st) - 1 :=
                    (last (recordings st))\<lparr>confidence := m\<rparr>]\<rparr>))"

section \<open>One run of main with audio present\<close>

text \<open>
  The three handlers stand inside \<open>if emotions:\<close>, after \<open>save_recording\<close> (lines 482
  to 541). A run in which a button is reported as pressed therefore classifies the
  audio, appends a recording, and only then executes the handler, on that new tail.
  \<open>pressed\<close> is the button Streamlit reports for this run, at most one.
\<close>

datatype button = NoButton | IncreaseConfidence | DecreaseConfidence | Reset

definition main_run ::
  "session_state \<Rightarrow> string \<Rightarrow> real \<Rightarrow> string \<Rightarrow> py_error + (string \<times> real) list \<Rightarrow> button
     \<Rightarrow> py_error + session_state" where
  "main_run st path inten now api_result pressed =
     (case get_emotion_from_huggingface (hf_token st) api_result of
        None \<Rightarrow> Inr st
      | Some ems \<Rightarrow>
          if ems = [] then Inr st
          else (case save_recording ems path inten now st of
                  Inl e \<Rightarrow> Inl e
                | Inr st1 \<Rightarrow>
                    (case pressed of
                       NoButton \<Rightarrow> Inr st1
                     | IncreaseConfidence \<Rightarrow> increase_confidence st1
                     | DecreaseConfidence \<Rightarrow> decrease_confidence st1
                     | Reset \<Rightarrow> reset_confidence ems st1)))"


section \<open>preprocess_audio\<close>

text \<open>
  A sample after numpy's division. \<open>y / np.max(np.abs(y))\<close> never raises: a zero divisor
  gives \<open>nan\<close> for a zero sample and an infinity otherwise, with a RuntimeWarning that
  line 15 of the file silences.
\<close>

datatype npfloat = Finite real | NaN | PosInf | NegInf

definition np_divide :: "real \<Rightarrow> real \<Rightarrow> npfloat" where
  "np_divide a b =
     (if b \<noteq> 0 then Finite (a / b)
      else if a = 0 then NaN
      else if 0 < a then PosInf else NegInf)"

text \<open>\<open>np.max(np.abs(y))\<close>: raises \<open>ValueError\<close> on an array of size zero.\<close>

fun np_max_abs :: "real list \<Rightarrow> py_error + real" where
  "np_max_abs [] = Inl ValueError"
| "np_max_abs (s # y) = Inr (foldl max \<bar>s\<bar> (map abs y))"

text \<open>\<open>audio_path.replace('.wav', '_processed.wav')\<close>\<close>

fun replace_wav :: "string \<Rightarrow> string" where
  "replace_wav [] = []"
| "replace_wav (c # cs) =
     (if starts_with ''.wav'' (c # cs) then ''_processed.wav'' @ replace_wav (drop 3 cs)
      else c # replace_wav cs)"

text \<open>
  What one call leaves behind: the path it returns, the array that \<open>sf.write\<close> stored
  (if the call got that far and the write succeeded), and whether \<open>st.warning\<close> was
  called.
\<close>

record preprocessed =
  returned_path :: string
  written :: "npfloat list option"
  warned :: bool

text \<open>
  \<open>loaded\<close> is what \<open>librosa.load\<close> does with the file (\<open>Inl\<close> when it raises),
  \<open>trim\<close> is \<open>librosa.effects.trim\<close>, and \<open>sf_write\<close> is \<open>sf.write\<close> on the output path
  and the array (\<open>Inl\<close> when it raises, as it does on a path whose extension names no
  format it can write). All three are library code taken as parameters. Any exception
  inside the \<open>try\<close> ends in the \<open>except\<close> branch.
\<close>

definition preprocess_audio ::
  "py_error + real list \<Rightarrow> (real list \<Rightarrow> real list) \<Rightarrow>
   (string \<Rightarrow> npfloat list \<Rightarrow> py_error + unit) \<Rightarrow> string \<Rightarrow> preprocessed" where
  "preprocess_audio loaded trim sf_write path =
     (case loaded of
        Inl e \<Rightarrow> \<lparr>returned_path = path, written = None, warned = True\<rparr>
      | Inr y0 \<Rightarrow>
          (let y = trim y0 in
           case np_max_abs y of
             Inl e \<Rightarrow> \<lparr>returned_path = path, written = None, warned = True\<rparr>
           | Inr peak \<Rightarrow>
               (let normalized = map (\<lambda>s. np_divide s peak) y;
                    output_path = replace_wav path
                in case sf_write output_path normalized of
                     Inl e \<Rightarrow> \<lparr>returned_path = path, written = None, warned = True\<rparr>
                   | Inr u \<Rightarrow>
                       \<lparr>returned_path = output_path, written = Some normalized,
                        warned = False\<rparr>)))"

section \<open>Analytics: the most common emotion\<close>

text \<open>
  \<open>df['Emotion'].mode()[0]\<close>. pandas' \<open>Series.mode\<close> is library code: it returns the
  values that occur most often, sorted ascending; for strings that is Python's string
  order, the lexicographic order on code points. \<open>[0]\<close> takes the first of them and
  raises \<open>KeyError\<close> if there is none.
\<close>

definition max_count :: "string list \<Rightarrow> nat" where
  "max_count xs = foldr max (map (count_list xs) xs) 0"

definition series_mode :: "string list \<Rightarrow> string list" where
  "series_mode xs = sort (filter (\<lambda>v. count_list xs v = max_count xs) (remdups xs))"

definition most_common :: "recording list \<Rightarrow> py_error + string" where
  "most_common rs =
     (case series_mode (map dominant_emotion rs) of
        [] \<Rightarrow> Inl KeyError
      | m # ms \<Rightarrow> Inr m)"

text \<open>The position of a label in the canonical order; 7 for any other string.\<close>

fun index_of :: "string \<Rightarrow> string list \<Rightarrow> nat" where
  "index_of x [] = 0"
| "index_of x (y # ys) = (if x = y then 0 else Suc (index_of x ys))"

definition canonical_index :: "string \<Rightarrow> nat" where
  "canonical_index l = index_of l EMOTION_CONFIG_keys"

section \<open>Feedback statistics\<close>

text \<open>
  A line of \<open>feedback.jsonl\<close> is either the JSON text of a feedback dict, on which
  \<open>json.loads\<close> returns that dict, or text that is not JSON, on which it raises
  \<open>JSONDecodeError\<close>.
\<close>

datatype log_line = Entry feedback | Corrupted string

fun json_loads :: "log_line \<Rightarrow> py_error + feedback" where
  "json_loads (Entry e) = Inr e"
| "json_loads (Corrupted s) = Inl JSONDecodeError"

text \<open>\<open>for line in f: feedback_data.append(json.loads(line))\<close>, with no handler around it.\<close>

fun read_feedback :: "log_line list \<Rightarrow> py_error + feedback list" where
  "read_feedback [] = Inr []"
| "read_feedback (l # ls) =
     (case json_loads l of
        Inl e \<Rightarrow> Inl e
      | Inr x \<Rightarrow> (case read_feedback ls of Inl e \<Rightarrow> Inl e | Inr xs \<Rightarrow> Inr (x # xs)))"

text \<open>The three metrics: accuracy in percent, mean helpfulness, number of entries.\<close>

definition accuracy :: "feedback list \<Rightarrow> real" where
  "accuracy df = real (length (filter is_correct df)) / real (length df) * 100"

definition avg_helpfulness :: "feedback list \<Rightarrow> real" where
  "avg_helpfulness df = real_of_int (sum_list (map helpfulness df)) / real (length df)"

text \<open>
  Lines 754 to 774, for a file that exists. A frame built from an empty list has no
  columns, so \<open>df_feedback['is_correct']\<close> raises \<open>KeyError\<close>.
\<close>

definition feedback_statistics :: "log_line list \<Rightarrow> py_error + real \<times> real \<times> nat" where
  "feedback_statistics file_lines =
     (case read_feedback file_lines of
        Inl e \<Rightarrow> Inl e
      | Inr df \<Rightarrow>
          if df = [] then Inl KeyError
          else Inr (accuracy df, avg_helpfulness df, length df))"

section \<open>Example inputs\<close>

text \<open>A fresh session with a token, and a vector in canonical key order with a tie.\<close>

definition session0 :: session_state where
  "session0 = \<lparr>recordings = [], selected_language = ''English'', hf_token = ''hf_abc''\<rparr>"

definition tied_vector :: emotions where
  "tied_vector =
     [(''Anger'', 1 / 2), (''Disgust'', 1 / 2), (''Fear'', 0), (''Happiness'', 0),
      (''Neutral'', 0), (''Sadness'', 0), (''Surprise'', 0)]"

text \<open>
  Two operations that round: a sum that comes out too large and a quotient that comes
  out too small, each by a relative 2 to the power -53.
\<close>

definition fsum_up :: "real list \<Rightarrow> real" where
  "fsum_up xs = sum_list xs * (1 + 1 / 2 ^ 53)"

definition fdiv_down :: "real \<Rightarrow> real \<Rightarrow> real" where
  "fdiv_down a b = a / b * (1 - 1 / 2 ^ 53)"



text \<open>A feedback entry, and recordings whose dominant emotions tie in frequency.\<close>

definition feedback1 :: feedback where
  "feedback1 = \<lparr>recording_idx = 0, predicted_emotion = ''Anger'', correct_emotion = ''Anger'',
                 is_correct = True, feedback_text = [], helpfulness = 5,
                 feedback_timestamp = ''2024-01-01T00:00:00''\<rparr>"

definition anger_rec :: recording where
  "anger_rec = \<lparr>timestamp = ''2024-01-01T00:00:00'', emotions = tied_vector,
         dominant_emotion = ''Anger'', confidence = 1 / 2, intensity = 1 / 2,
         audio_path = ''/tmp/a.wav'', language = ''English''\<rparr>"

definition sad_rec :: recording where
  "sad_rec = anger_rec\<lparr>dominant_emotion := ''Sadness''\<rparr>"

section \<open>Properties\<close>

subsection \<open>The branch order\<close>

lemma map_of_dict_set: "map_of (dict_set k v d) = (map_of d)(k \<mapsto> v)"
  by (induction d) (auto simp: fun_eq_iff)

lemma map_label_first_branch:
  "map_label d (label, score) =
     (case first_branch label of None \<Rightarrow> d | Some slot \<Rightarrow> dict_set slot score d)"
  by (simp add: map_label_def first_branch_def branch_table_def)

text \<open>
  C10. One raw label writes its score to at most one slot: the slot of the first
  substring test that succeeds, in the order anger, disgust, fear, happy or joy,
  neutral, sad, surprise on the lowercased label. Every other key of the dict keeps
  what it had, and a label that passes no test changes nothing.
\<close>

theorem map_label_one_slot:
  "(first_branch label = None \<longrightarrow> map_label d (label, score) = d) \<and>
   (\<forall>slot. first_branch label = Some slot \<longrightarrow>
      map_of (map_label d (label, score)) slot = Some score \<and>
      (\<forall>k. k \<noteq> slot \<longrightarrow>
         map_of (map_label d (label, score)) k = map_of d k))"
  by (simp add: map_label_first_branch map_of_dict_set)

theorem map_label_one_slot_witness:
  "first_branch ''Sad-Anger'' = Some ''Anger'' \<and>
   map_of (map_label [(''Sadness'', 1)] (''Sad-Anger'', 2)) ''Anger'' = Some 2 \<and>
   map_of (map_label [(''Sadness'', 1)] (''Sad-Anger'', 2)) ''Sadness'' = Some 1"
proof -
  have fb: "first_branch ''Sad-Anger'' = Some ''Anger''"
    by (simp add: first_branch_def branch_table_def lower_def lower_char_def)
  from map_label_one_slot [of "''Sad-Anger''" "[(''Sadness'', 1)]" 2] fb
  show ?thesis by simp
qed

subsection \<open>Keys and values of the slots\<close>

lemma keys_dict_set: "fst ` set (dict_set k v d) = insert k (fst ` set d)"
  by (induction d) auto

lemma distinct_dict_set: "distinct (map fst d) \<Longrightarrow> distinct (map fst (dict_set k v d))"
  by (induction d) (auto simp: keys_dict_set)

lemma pred_dict_set:
  "\<forall>p\<in>set d. P (snd p) \<Longrightarrow> P v \<Longrightarrow> \<forall>p\<in>set (dict_set k v d). P (snd p)"
  by (induction d) auto

lemma dict_set_absent: "k \<notin> fst ` set d \<Longrightarrow> dict_set k v d = d @ [(k, v)]"
  by (induction d) auto

lemma dict_in_simps:
  "dict_in k [] = False"
  "dict_in k (p # d) = (fst p = k \<or> dict_in k d)"
  by (auto simp: dict_in_def)

lemma first_branch_canonical: "first_branch label = Some slot \<Longrightarrow> slot \<in> set EMOTION_CONFIG_keys"
  by (auto simp: first_branch_def branch_table_def EMOTION_CONFIG_keys_def split: if_splits)

lemma foldl_map_label_lookup:
  "map_of (foldl map_label d result) k =
     (case last_score k result of None \<Rightarrow> map_of d k | Some v \<Rightarrow> Some v)"
proof (induction result rule: rev_induct)
  case Nil
  show ?case by (simp add: last_score_def)
next
  case (snoc item result)
  obtain label score where item: "item = (label, score)" by (cases item)
  show ?case
    using snoc
    by (cases "first_branch label")
       (auto simp: item map_label_first_branch map_of_dict_set last_score_def)
qed

lemma raw_scores_keys:
  "fst ` set (foldl map_label d result) \<subseteq> fst ` set d \<union> set EMOTION_CONFIG_keys"
proof (induction result rule: rev_induct)
  case Nil
  show ?case by simp
next
  case (snoc item result)
  obtain label score where item: "item = (label, score)" by (cases item)
  show ?case
    using snoc
    by (cases "first_branch label")
       (auto simp: item map_label_first_branch keys_dict_set dest: first_branch_canonical)
qed

lemma raw_scores_distinct:
  "distinct (map fst d) \<Longrightarrow> distinct (map fst (foldl map_label d result))"
proof (induction result rule: rev_induct)
  case Nil
  then show ?case by simp
next
  case (snoc item result)
  obtain label score where item: "item = (label, score)" by (cases item)
  show ?case
    using snoc
    by (cases "first_branch label")
       (auto simp: item map_label_first_branch distinct_dict_set)
qed

lemma raw_scores_pred:
  "\<forall>p\<in>set d. P (snd p) \<Longrightarrow> \<forall>item\<in>set result. P (snd item) \<Longrightarrow>
   \<forall>p\<in>set (foldl map_label d result). P (snd p)"
proof (induction result rule: rev_induct)
  case Nil
  then show ?case by simp
next
  case (snoc item result)
  obtain label score where item: "item = (label, score)" by (cases item)
  have ih: "\<forall>p\<in>set (foldl map_label d result). P (snd p)"
    using snoc by simp
  have sc: "P score" using snoc.prems(2) by (simp add: item)
  show ?case
  proof (cases "first_branch label")
    case None
    then show ?thesis using ih by (simp add: item map_label_first_branch)
  next
    case (Some slot)
    then show ?thesis
      using pred_dict_set [of _ P, OF ih sc, of slot]
      by (simp add: item map_label_first_branch)
  qed
qed

lemma raw_scores_no_match:
  "\<forall>item\<in>set result. first_branch (fst item) = None \<Longrightarrow> foldl map_label d result = d"
proof (induction result rule: rev_induct)
  case Nil
  show ?case by simp
next
  case (snoc item result)
  obtain label score where item: "item = (label, score)" by (cases item)
  show ?case using snoc by (simp add: item map_label_first_branch)
qed

lemma fill_keys: "fst ` set (foldl fill_missing d ks) = fst ` set d \<union> set ks"
  by (induction ks arbitrary: d) (auto simp: fill_missing_def dict_in_def keys_dict_set)

lemma fill_distinct: "distinct (map fst d) \<Longrightarrow> distinct (map fst (foldl fill_missing d ks))"
  by (induction ks arbitrary: d) (auto simp: fill_missing_def distinct_dict_set)

lemma fill_pred:
  "P 0 \<Longrightarrow> \<forall>p\<in>set d. P (snd p) \<Longrightarrow> \<forall>p\<in>set (foldl fill_missing d ks). P (snd p)"
proof (induction ks arbitrary: d)
  case Nil
  then show ?case by simp
next
  case (Cons k ks)
  have "\<forall>p\<in>set (fill_missing d k). P (snd p)"
    using pred_dict_set [of d P 0 k] Cons.prems by (simp add: fill_missing_def)
  then show ?case using Cons.IH Cons.prems(1) by simp
qed

lemma fill_missing_sum: "sum_list (map snd (fill_missing d k)) = sum_list (map snd d)"
  by (simp add: fill_missing_def dict_in_def dict_set_absent)

lemma fill_sum: "sum_list (map snd (foldl fill_missing d ks)) = sum_list (map snd d)"
  by (induction ks arbitrary: d) (simp_all add: fill_missing_sum)

lemma ensure_present_sum:
  "sum_list (map snd (ensure_present d)) = sum_list (map snd d)"
  unfolding ensure_present_def by (rule fill_sum)

lemma ensure_present_empty:
  "ensure_present [] = map (\<lambda>k. (k, 0)) EMOTION_CONFIG_keys"
  by (simp add: ensure_present_def fill_missing_def EMOTION_CONFIG_keys_def dict_in_def)

lemma slots_range:
  assumes "\<forall>item\<in>set result. 0 \<le> snd item \<and> snd item \<le> 1"
  shows "\<forall>x\<in>set (map snd (ensure_present (raw_scores result))). 0 \<le> x \<and> x \<le> 1"
proof -
  have "\<forall>p\<in>set (raw_scores result). 0 \<le> snd p \<and> snd p \<le> 1"
    unfolding raw_scores_def using assms
    by (intro raw_scores_pred [of "[]" "\<lambda>v. 0 \<le> v \<and> v \<le> 1"]) simp_all
  then have "\<forall>p\<in>set (ensure_present (raw_scores result)). 0 \<le> snd p \<and> snd p \<le> 1"
    unfolding ensure_present_def
    by (intro fill_pred [of "\<lambda>v. 0 \<le> v \<and> v \<le> 1"]) simp_all
  then show ?thesis by simp
qed

lemma slots_keys: "fst ` set (ensure_present (raw_scores result)) = set EMOTION_CONFIG_keys"
proof -
  have "fst ` set (ensure_present (raw_scores result)) =
      fst ` set (raw_scores result) \<union> set EMOTION_CONFIG_keys"
    by (simp add: ensure_present_def fill_keys)
  also have "\<dots> = set EMOTION_CONFIG_keys"
    using raw_scores_keys [of "[]" result] by (auto simp: raw_scores_def)
  finally show ?thesis .
qed

lemma slots_distinct: "distinct (map fst (ensure_present (raw_scores result)))"
proof -
  have "distinct (map fst (raw_scores result))"
    unfolding raw_scores_def by (rule raw_scores_distinct) simp
  then show ?thesis by (simp only: ensure_present_def fill_distinct)
qed

lemma slots_length: "length (ensure_present (raw_scores result)) = 7"
proof -
  let ?d = "ensure_present (raw_scores result)"
  have "length ?d = length (map fst ?d)" by simp
  also have "\<dots> = card (set (map fst ?d))"
    using slots_distinct by (simp only: distinct_card)
  also have "\<dots> = card (set EMOTION_CONFIG_keys)"
    using slots_keys by simp
  also have "\<dots> = 7" by (simp add: EMOTION_CONFIG_keys_def)
  finally show ?thesis .
qed

lemma normalize_fl_keys: "map fst (normalize_fl fsum fdiv d) = map fst d"
  by (simp add: normalize_fl_def Let_def case_prod_beta comp_def)

lemma normalize_fl_values:
  "map snd (normalize_fl fsum fdiv d) =
     (if 0 < fsum (map snd d) then map (\<lambda>x. fdiv x (fsum (map snd d))) (map snd d)
      else map snd d)"
  by (simp add: normalize_fl_def Let_def case_prod_beta comp_def)

lemma normalize_exact:
  "normalize ems =
     (let total = sum_list (map snd ems) in
      if total > 0 then map (\<lambda>(k, v). (k, v / total)) ems else ems)"
  by (simp add: normalize_def normalize_fl_def)

lemma reconcile_fl_keys:
  "map fst (reconcile_fl fsum fdiv result) = map fst (ensure_present (raw_scores result))"
  by (simp add: reconcile_fl_def normalize_fl_keys)

lemma reconcile_exact: "reconcile result = reconcile_fl sum_list (\<lambda>a b. a / b) result"
  by (simp add: reconcile_def reconcile_fl_def normalize_def)

lemma float_ops_exact: "float_ops sum_list (\<lambda>a b. a / b)"
proof -
  have "0 \<le> 7 * unit_roundoff * sum_list xs" if "\<forall>x\<in>set xs. 0 \<le> x \<and> x \<le> 2"
    for xs :: "real list"
  proof -
    have "0 \<le> sum_list xs" using that by (intro sum_list_nonneg) simp
    then show ?thesis by (simp add: unit_roundoff_def)
  qed
  moreover have "0 \<le> unit_roundoff * (a / b) + underflow_unit" if "0 \<le> a" "0 < b"
    for a b :: real
  proof -
    have "0 \<le> a / b" using that by simp
    then have "0 \<le> unit_roundoff * (a / b)"
      by (intro mult_nonneg_nonneg) (simp_all add: unit_roundoff_def)
    then show ?thesis by (simp add: underflow_unit_def)
  qed
  ultimately show ?thesis by (simp add: float_ops_def)
qed

lemma reconcile_keys: "fst ` set (reconcile result) = set EMOTION_CONFIG_keys"
proof -
  have "fst ` set (reconcile result) = set (map fst (reconcile result))" by simp
  also have "\<dots> = set (map fst (ensure_present (raw_scores result)))"
    by (simp only: reconcile_exact reconcile_fl_keys)
  also have "\<dots> = set EMOTION_CONFIG_keys" using slots_keys by simp
  finally show ?thesis .
qed

lemma reconcile_length: "length (reconcile result) = 7"
proof -
  have "length (reconcile result) = length (map fst (reconcile result))" by simp
  also have "\<dots> = length (map fst (ensure_present (raw_scores result)))"
    by (simp only: reconcile_exact reconcile_fl_keys)
  also have "\<dots> = 7" using slots_length by simp
  finally show ?thesis .
qed

lemma reconcile_nonempty: "reconcile result \<noteq> []"
  using reconcile_length [of result] by auto

lemma fb_joy: "first_branch ''joy'' = Some ''Happiness''"
  by (simp add: first_branch_def branch_table_def lower_def lower_char_def)

lemma fb_happy: "first_branch ''happy'' = Some ''Happiness''"
  by (simp add: first_branch_def branch_table_def lower_def lower_char_def)

lemma fb_disgust: "first_branch ''disgust'' = Some ''Disgust''"
  by (simp add: first_branch_def branch_table_def lower_def lower_char_def)

lemma fb_anger: "first_branch ''anger'' = Some ''Anger''"
  by (simp add: first_branch_def branch_table_def lower_def lower_char_def)

lemma fb_sad: "first_branch ''sad'' = Some ''Sadness''"
  by (simp add: first_branch_def branch_table_def lower_def lower_char_def)

subsection \<open>The reconciled vector under rounding\<close>

lemma unit_roundoff_small: "0 < unit_roundoff" "unit_roundoff \<le> 1 / 1000000000000000"
  by (simp_all add: unit_roundoff_def)

lemma underflow_unit_small: "0 < underflow_unit" "underflow_unit \<le> 1 / 1000000000000000"
  by (simp_all add: underflow_unit_def)

lemma member_le_sum_list:
  "\<forall>x\<in>set xs. (0::real) \<le> x \<Longrightarrow> x \<in> set xs \<Longrightarrow> x \<le> sum_list xs"
proof (induction xs)
  case Nil
  then show ?case by simp
next
  case (Cons y ys)
  have "0 \<le> sum_list ys" using Cons.prems(1) by (intro sum_list_nonneg) simp
  moreover have "0 \<le> y" using Cons.prems(1) by simp
  ultimately show ?case using Cons by auto
qed

lemma sum_list_error:
  "\<forall>x\<in>set xs. \<bar>f x - g x\<bar> \<le> c * g x + e \<Longrightarrow>
   \<bar>sum_list (map f xs) - sum_list (map g xs)\<bar> \<le>
     c * sum_list (map g xs) + real (length xs) * (e::real)"
proof (induction xs)
  case Nil
  show ?case by simp
next
  case (Cons x xs)
  have 1: "\<bar>f x - g x\<bar> \<le> c * g x + e" using Cons.prems by simp
  have 2: "\<bar>sum_list (map f xs) - sum_list (map g xs)\<bar> \<le>
     c * sum_list (map g xs) + real (length xs) * e" using Cons by simp
  have "\<bar>sum_list (map f (x # xs)) - sum_list (map g (x # xs))\<bar> \<le>
     \<bar>f x - g x\<bar> + \<bar>sum_list (map f xs) - sum_list (map g xs)\<bar>" by simp
  also have "\<dots> \<le> (c * g x + e) + (c * sum_list (map g xs) + real (length xs) * e)"
    using 1 2 by (rule add_mono)
  also have "\<dots> = c * sum_list (map g (x # xs)) + real (length (x # xs)) * e"
    by (simp add: algebra_simps)
  finally show ?case .
qed

lemma sum_list_divide: "sum_list (map (\<lambda>p. f p / c) xs) = sum_list (map f xs) / (c::real)"
  by (induction xs) (simp_all add: add_divide_distrib)

lemma fsum_total:
  assumes fo: "float_ops fsum fdiv" and len: "length xs = 7"
    and rng: "\<forall>x\<in>set xs. 0 \<le> x \<and> x \<le> 1"
  shows "\<bar>fsum xs - sum_list xs\<bar> \<le> sum_list xs / 100000000000000"
proof -
  have S: "0 \<le> sum_list xs" using rng by (intro sum_list_nonneg) simp
  have "\<forall>x\<in>set xs. 0 \<le> x \<and> x \<le> 2" using rng by auto
  with fo len have "\<bar>fsum xs - sum_list xs\<bar> \<le> 7 * unit_roundoff * sum_list xs"
    unfolding float_ops_def by blast
  also have "\<dots> \<le> 7 * (1 / 1000000000000000) * sum_list xs"
    using unit_roundoff_small(2) S by (intro mult_right_mono mult_left_mono) simp_all
  also have "\<dots> \<le> sum_list xs / 100000000000000" using S by simp
  finally show ?thesis .
qed

lemma fsum_zero:
  assumes "float_ops fsum fdiv" "length xs = 7" "\<forall>x\<in>set xs. 0 \<le> x \<and> x \<le> 1"
    "sum_list xs = 0"
  shows "fsum xs = 0"
  using fsum_total [OF assms(1-3)] assms(4) by simp

lemma normalized_bounds:
  assumes fo: "float_ops fsum fdiv" and len: "length xs = 7"
    and rng: "\<forall>x\<in>set xs. 0 \<le> x \<and> x \<le> 1" and pos: "0 < sum_list xs"
  shows "0 < fsum xs"
    and "\<forall>x\<in>set xs. 0 \<le> fdiv x (fsum xs) \<and> fdiv x (fsum xs) \<le> 2"
    and "\<bar>sum_list (map (\<lambda>x. fdiv x (fsum xs)) xs) - 1\<bar> \<le> 1 / 10000000000000"
proof -
  let ?S = "sum_list xs" and ?T = "fsum xs"
  have tot: "\<bar>?T - ?S\<bar> \<le> ?S / 100000000000000" using fo len rng by (rule fsum_total)
  then show T: "0 < ?T" using pos by linarith
  have ST: "?S \<le> 3 / 2 * ?T" using tot pos by linarith
  define r where "r = ?S / ?T"
  have r_pos: "0 < r" unfolding r_def using pos T by simp
  have r_le: "r \<le> 3 / 2" unfolding r_def using ST T by (simp add: pos_divide_le_eq)
  have "\<bar>?T - ?S\<bar> / ?T \<le> (?S / 100000000000000) / ?T"
    using tot T by (intro divide_right_mono) simp_all
  moreover have "\<bar>?T - ?S\<bar> / ?T = \<bar>(?T - ?S) / ?T\<bar>" using T by simp
  moreover have "(?T - ?S) / ?T = 1 - r" unfolding r_def using T by (simp add: diff_divide_distrib)
  moreover have "(?S / 100000000000000) / ?T = r / 100000000000000" unfolding r_def by simp
  ultimately have r1: "\<bar>1 - r\<bar> \<le> r / 100000000000000" by simp
  have elem: "0 \<le> fdiv x ?T \<and>
      \<bar>fdiv x ?T - x / ?T\<bar> \<le> unit_roundoff * (x / ?T) + underflow_unit \<and>
      0 \<le> x / ?T \<and> x / ?T \<le> r"
    if x: "x \<in> set xs" for x
  proof -
    have x0: "0 \<le> x" using rng x by simp
    have xS: "x \<le> ?S" using rng x by (intro member_le_sum_list) auto
    then have xr: "x / ?T \<le> r" unfolding r_def using T by (intro divide_right_mono) simp_all
    have x2: "x \<le> 2 * ?T" using xS ST T by linarith
    have q0: "0 \<le> x / ?T" using x0 T by simp
    from fo x0 T x2 have "0 \<le> fdiv x ?T \<and>
      \<bar>fdiv x ?T - x / ?T\<bar> \<le> unit_roundoff * (x / ?T) + underflow_unit"
      unfolding float_ops_def by blast
    with xr q0 show ?thesis by blast
  qed
  show "\<forall>x\<in>set xs. 0 \<le> fdiv x ?T \<and> fdiv x ?T \<le> 2"
  proof
    fix x assume x: "x \<in> set xs"
    from elem [OF x] have q0: "0 \<le> fdiv x ?T"
      and err: "\<bar>fdiv x ?T - x / ?T\<bar> \<le> unit_roundoff * (x / ?T) + underflow_unit"
      and x0: "0 \<le> x / ?T" and xr: "x / ?T \<le> r" by blast+
    have "unit_roundoff * (x / ?T) \<le> 1 / 1000000000000000 * (x / ?T)"
      using x0 unit_roundoff_small(2) by (intro mult_right_mono)
    with err xr r_le underflow_unit_small(2) have "fdiv x ?T \<le> 2" by linarith
    with q0 show "0 \<le> fdiv x ?T \<and> fdiv x ?T \<le> 2" by blast
  qed
  have "\<forall>x\<in>set xs. \<bar>fdiv x ?T - x / ?T\<bar> \<le> unit_roundoff * (x / ?T) + underflow_unit"
    using elem by blast
  from sum_list_error [of xs "\<lambda>x. fdiv x ?T" "\<lambda>x. x / ?T", OF this]
  have "\<bar>sum_list (map (\<lambda>x. fdiv x ?T) xs) - sum_list (map (\<lambda>x. x / ?T) xs)\<bar> \<le>
      unit_roundoff * sum_list (map (\<lambda>x. x / ?T) xs) + real (length xs) * underflow_unit" .
  moreover have "sum_list (map (\<lambda>x. x / ?T) xs) = r"
    unfolding r_def using sum_list_divide [of "\<lambda>x. x" ?T xs] by simp
  ultimately have e1: "\<bar>sum_list (map (\<lambda>x. fdiv x ?T) xs) - r\<bar> \<le>
      unit_roundoff * r + 7 * underflow_unit" using len by simp
  have "unit_roundoff * r \<le> 1 / 1000000000000000 * r"
    using r_pos unit_roundoff_small(2) by (intro mult_right_mono) simp_all
  with e1 r1 r_le underflow_unit_small(2)
  show "\<bar>sum_list (map (\<lambda>x. fdiv x ?T) xs) - 1\<bar> \<le> 1 / 10000000000000" by linarith
qed

lemma normalized_fsum:
  assumes fo: "float_ops fsum fdiv" and len: "length xs = 7"
    and rng: "\<forall>x\<in>set xs. 0 \<le> x \<and> x \<le> 1" and pos: "0 < sum_list xs"
  shows "\<bar>fsum (map (\<lambda>x. fdiv x (fsum xs)) xs) - 1\<bar> \<le> 1 / 1000000000000"
proof -
  let ?qs = "map (\<lambda>x. fdiv x (fsum xs)) xs"
  have q: "\<forall>q\<in>set ?qs. 0 \<le> q \<and> q \<le> 2"
    using normalized_bounds(2) [OF fo len rng pos] by auto
  have s1: "\<bar>sum_list ?qs - 1\<bar> \<le> 1 / 10000000000000"
    by (rule normalized_bounds(3) [OF fo len rng pos])
  have "length ?qs = 7" using len by simp
  with fo q have "\<bar>fsum ?qs - sum_list ?qs\<bar> \<le> 7 * unit_roundoff * sum_list ?qs"
    unfolding float_ops_def by blast
  moreover have "0 \<le> sum_list ?qs" using s1 by linarith
  then have "7 * unit_roundoff * sum_list ?qs \<le> 7 * (1 / 1000000000000000) * sum_list ?qs"
    using unit_roundoff_small(2) by (intro mult_right_mono mult_left_mono) simp_all
  ultimately show ?thesis using s1 by linarith
qed

lemma reconcile_fl_positive:
  assumes fo: "float_ops fsum fdiv"
    and rng: "\<forall>item\<in>set result. 0 \<le> snd item \<and> snd item \<le> 1"
    and pos: "0 < sum_list (map snd (raw_scores result))"
  shows "(\<forall>x\<in>set (map snd (reconcile_fl fsum fdiv result)). 0 \<le> x) \<and>
         \<bar>sum_list (map snd (reconcile_fl fsum fdiv result)) - 1\<bar> \<le> 1 / 1000000 \<and>
         \<bar>fsum (map snd (reconcile_fl fsum fdiv result)) - 1\<bar> \<le> 1 / 1000000"
proof -
  let ?xs = "map snd (ensure_present (raw_scores result))"
  have len: "length ?xs = 7" using slots_length by simp
  have r: "\<forall>x\<in>set ?xs. 0 \<le> x \<and> x \<le> 1" using rng by (rule slots_range)
  have p: "0 < sum_list ?xs" using pos by (simp only: ensure_present_sum)
  note b = normalized_bounds [OF fo len r p]
  have v: "map snd (reconcile_fl fsum fdiv result) = map (\<lambda>x. fdiv x (fsum ?xs)) ?xs"
    using b(1) by (simp only: reconcile_fl_def normalize_fl_values if_True)
  have "\<forall>x\<in>set (map (\<lambda>x. fdiv x (fsum ?xs)) ?xs). 0 \<le> x" using b(2) by auto
  moreover have "\<bar>sum_list (map (\<lambda>x. fdiv x (fsum ?xs)) ?xs) - 1\<bar> \<le> 1 / 1000000"
    using b(3) by linarith
  moreover have "\<bar>fsum (map (\<lambda>x. fdiv x (fsum ?xs)) ?xs) - 1\<bar> \<le> 1 / 1000000"
    using normalized_fsum [OF fo len r p] by linarith
  ultimately show ?thesis unfolding v by blast
qed

lemma reconcile_fl_zero:
  assumes fo: "float_ops fsum fdiv"
    and rng: "\<forall>item\<in>set result. 0 \<le> snd item \<and> snd item \<le> 1"
    and zero: "sum_list (map snd (raw_scores result)) = 0"
  shows "reconcile_fl fsum fdiv result = ensure_present (raw_scores result) \<and>
         (\<forall>x\<in>set (map snd (reconcile_fl fsum fdiv result)). x = 0)"
proof -
  let ?d = "ensure_present (raw_scores result)"
  let ?xs = "map snd ?d"
  have len: "length ?xs = 7" using slots_length by simp
  have r: "\<forall>x\<in>set ?xs. 0 \<le> x \<and> x \<le> 1" using rng by (rule slots_range)
  have z: "sum_list ?xs = 0" using zero by (simp only: ensure_present_sum)
  have "fsum ?xs = 0" using fo len r z by (rule fsum_zero)
  then have same: "reconcile_fl fsum fdiv result = ?d"
    by (simp add: reconcile_fl_def normalize_fl_def)
  have "\<forall>x\<in>set ?xs. 0 \<le> x" using r by blast
  with z have "\<forall>x\<in>set ?xs. x = 0" by (simp only: sum_list_nonneg_eq_0_iff)
  with same show ?thesis by simp
qed

lemma reconcile_fl_no_match:
  assumes fo: "float_ops fsum fdiv"
    and nomatch: "\<forall>item\<in>set result. first_branch (fst item) = None"
  shows "reconcile_fl fsum fdiv result = map (\<lambda>k. (k, 0)) EMOTION_CONFIG_keys"
proof -
  have raw: "raw_scores result = []"
    unfolding raw_scores_def using nomatch by (rule raw_scores_no_match)
  have "\<forall>item\<in>set ([] :: (string \<times> real) list). 0 \<le> snd item \<and> snd item \<le> 1" by simp
  moreover have "sum_list (map snd (raw_scores [])) = 0" by (simp add: raw_scores_def)
  ultimately have "reconcile_fl fsum fdiv [] = ensure_present (raw_scores [])"
    using reconcile_fl_zero [OF fo, of "[]"] by blast
  moreover have "raw_scores [] = []" by (simp add: raw_scores_def)
  then have "reconcile_fl fsum fdiv result = reconcile_fl fsum fdiv []"
    by (simp only: reconcile_fl_def raw)
  ultimately show ?thesis by (simp add: raw_scores_def ensure_present_empty)
qed

text \<open>
  C1, as the code has it. With float operations as \<open>float_ops\<close> describes them and every
  score in [0, 1], the returned dict has exactly the seven canonical keys, each once,
  and no negative value. When the total of the slots before normalisation is positive,
  its values sum to 1 within 1e-6, summed exactly or with the float sum. When that total
  is 0 every value is 0: \<open>if total > 0\<close> leaves the dict as it is, and no uniform vector
  is built. In particular, when no raw label passes any substring test, the result is
  the zero vector in canonical order.
\<close>

theorem reconcile_vector:
  assumes "float_ops fsum fdiv"
    and "\<forall>item\<in>set result. 0 \<le> snd item \<and> snd item \<le> 1"
  shows "fst ` set (reconcile_fl fsum fdiv result) = set EMOTION_CONFIG_keys \<and>
         distinct (map fst (reconcile_fl fsum fdiv result)) \<and>
         length (reconcile_fl fsum fdiv result) = 7 \<and>
         (\<forall>p\<in>set (reconcile_fl fsum fdiv result). 0 \<le> snd p) \<and>
         (0 < sum_list (map snd (raw_scores result)) \<longrightarrow>
            \<bar>sum_list (map snd (reconcile_fl fsum fdiv result)) - 1\<bar> \<le> 1 / 1000000 \<and>
            \<bar>fsum (map snd (reconcile_fl fsum fdiv result)) - 1\<bar> \<le> 1 / 1000000) \<and>
         (sum_list (map snd (raw_scores result)) = 0 \<longrightarrow>
            (\<forall>p\<in>set (reconcile_fl fsum fdiv result). snd p = 0)) \<and>
         ((\<forall>item\<in>set result. first_branch (fst item) = None) \<longrightarrow>
            reconcile_fl fsum fdiv result = map (\<lambda>k. (k, 0)) EMOTION_CONFIG_keys)"
proof (intro conjI impI)
  let ?R = "reconcile_fl fsum fdiv result"
  have keys: "map fst ?R = map fst (ensure_present (raw_scores result))"
    by (rule reconcile_fl_keys)
  have "fst ` set ?R = set (map fst ?R)" by simp
  then show "fst ` set ?R = set EMOTION_CONFIG_keys"
    unfolding keys using slots_keys by simp
  show "distinct (map fst ?R)" unfolding keys by (rule slots_distinct)
  have "length ?R = length (map fst ?R)" by simp
  then show "length ?R = 7" unfolding keys using slots_length by simp
  have S0: "0 \<le> sum_list (map snd (raw_scores result))"
  proof -
    have "\<forall>p\<in>set (raw_scores result). 0 \<le> snd p \<and> snd p \<le> 1"
      unfolding raw_scores_def using assms(2)
      by (intro raw_scores_pred [of "[]" "\<lambda>v. 0 \<le> v \<and> v \<le> 1"]) simp_all
    then show ?thesis by (intro sum_list_nonneg) auto
  qed
  show "\<forall>p\<in>set ?R. 0 \<le> snd p"
  proof (cases "0 < sum_list (map snd (raw_scores result))")
    case True
    from reconcile_fl_positive [OF assms True] show ?thesis by simp
  next
    case False
    with S0 have "sum_list (map snd (raw_scores result)) = 0" by simp
    from reconcile_fl_zero [OF assms this] show ?thesis by simp
  qed
  show "\<bar>sum_list (map snd ?R) - 1\<bar> \<le> 1 / 1000000"
    if "0 < sum_list (map snd (raw_scores result))"
    using reconcile_fl_positive [OF assms that] by blast
  show "\<bar>fsum (map snd ?R) - 1\<bar> \<le> 1 / 1000000"
    if "0 < sum_list (map snd (raw_scores result))"
    using reconcile_fl_positive [OF assms that] by blast
  show "\<forall>p\<in>set ?R. snd p = 0"
    if "sum_list (map snd (raw_scores result)) = 0"
    using reconcile_fl_zero [OF assms that] by simp
  show "?R = map (\<lambda>k. (k, 0)) EMOTION_CONFIG_keys"
    if "\<forall>item\<in>set result. first_branch (fst item) = None"
    using assms(1) that by (rule reconcile_fl_no_match)
qed

lemma float_ops_up_down: "float_ops fsum_up fdiv_down"
  unfolding float_ops_def
proof (intro conjI allI impI)
  fix xs :: "real list"
  assume a: "length xs = 7 \<and> (\<forall>x\<in>set xs. 0 \<le> x \<and> x \<le> 2)"
  then have "0 \<le> sum_list xs" by (intro sum_list_nonneg) simp
  then show "\<bar>fsum_up xs - sum_list xs\<bar> \<le> 7 * unit_roundoff * sum_list xs"
    by (simp add: fsum_up_def unit_roundoff_def algebra_simps)
next
  fix a b :: real
  assume a: "0 \<le> a \<and> 0 < b \<and> a \<le> 2 * b"
  then have q: "0 \<le> a / b" by simp
  then show "0 \<le> fdiv_down a b" by (simp add: fdiv_down_def)
  define e where "e = unit_roundoff * (a / b)"
  have "fdiv_down a b - a / b = - e"
    by (simp add: e_def fdiv_down_def unit_roundoff_def algebra_simps)
  moreover have "0 \<le> e"
    unfolding e_def using q unit_roundoff_small(1) by (intro mult_nonneg_nonneg) simp_all
  ultimately have "\<bar>fdiv_down a b - a / b\<bar> \<le> e + underflow_unit"
    using underflow_unit_small(1) by linarith
  then show "\<bar>fdiv_down a b - a / b\<bar> \<le> unit_roundoff * (a / b) + underflow_unit"
    by (simp only: e_def)
qed

lemma raw_joy_sad:
  "raw_scores [(''joy'', 3 / 4), (''sad'', 1 / 4)] = [(''Happiness'', 3 / 4), (''Sadness'', 1 / 4)]"
  by (simp add: raw_scores_def map_label_first_branch fb_joy fb_sad)

lemma ensure_joy_sad:
  "ensure_present [(''Happiness'', v), (''Sadness'', w)] =
     [(''Happiness'', v), (''Sadness'', w), (''Anger'', 0), (''Disgust'', 0), (''Fear'', 0),
      (''Neutral'', 0), (''Surprise'', 0)]"
  by (simp add: ensure_present_def fill_missing_def EMOTION_CONFIG_keys_def dict_in_simps)

lemma sum_joy_sad:
  "sum_list (map snd (reconcile_fl fsum_up fdiv_down [(''joy'', 3 / 4), (''sad'', 1 / 4)])) =
     (1 - 1 / 2 ^ 53) / (1 + 1 / 2 ^ 53)"
  unfolding reconcile_fl_def raw_joy_sad ensure_joy_sad
  by (simp add: normalize_fl_def fsum_up_def fdiv_down_def)

theorem reconcile_vector_witness:
  "0 \<le> (1 / 2 :: real) \<and> (1 / 2 :: real) \<le> 1 \<and> first_branch ''calm'' = None \<and>
   sum_list (map snd (raw_scores [(''calm'', 1 / 2)])) = 0 \<and>
   reconcile_fl fsum_up fdiv_down [(''calm'', 1 / 2)] = map (\<lambda>k. (k, 0)) EMOTION_CONFIG_keys \<and>
   snd (hd (reconcile_fl fsum_up fdiv_down [(''calm'', 1 / 2)])) = 0 \<and>
   0 < sum_list (map snd (raw_scores [(''joy'', 3 / 4), (''sad'', 1 / 4)])) \<and>
   \<bar>sum_list (map snd (reconcile_fl fsum_up fdiv_down [(''joy'', 3 / 4), (''sad'', 1 / 4)])) - 1\<bar>
     \<le> 1 / 1000000 \<and>
   sum_list (map snd (reconcile_fl fsum_up fdiv_down [(''joy'', 3 / 4), (''sad'', 1 / 4)])) \<noteq> 1"
proof -
  note ops = float_ops_up_down
  have rng: "\<forall>item\<in>set [(''calm'', 1 / 2 :: real)]. 0 \<le> snd item \<and> snd item \<le> 1" by simp
  have calm: "first_branch ''calm'' = None"
    by (simp add: first_branch_def branch_table_def lower_def lower_char_def)
  then have nomatch: "\<forall>item\<in>set [(''calm'', 1 / 2 :: real)]. first_branch (fst item) = None"
    by simp
  have zero: "sum_list (map snd (raw_scores [(''calm'', 1 / 2)])) = 0"
    by (simp add: raw_scores_def map_label_first_branch calm)
  note calm_facts = reconcile_vector [OF ops rng]
  from calm_facts nomatch
  have r: "reconcile_fl fsum_up fdiv_down [(''calm'', 1 / 2)] =
      map (\<lambda>k. (k, 0)) EMOTION_CONFIG_keys" by blast
  from calm_facts zero
  have "\<forall>p\<in>set (reconcile_fl fsum_up fdiv_down [(''calm'', 1 / 2)]). snd p = 0" by blast
  moreover have "hd (reconcile_fl fsum_up fdiv_down [(''calm'', 1 / 2)]) \<in>
      set (reconcile_fl fsum_up fdiv_down [(''calm'', 1 / 2)])"
    unfolding r by (simp add: EMOTION_CONFIG_keys_def)
  ultimately have h: "snd (hd (reconcile_fl fsum_up fdiv_down [(''calm'', 1 / 2)])) = 0" by blast
  have rng2: "\<forall>item\<in>set [(''joy'', 3 / 4 :: real), (''sad'', 1 / 4)].
      0 \<le> snd item \<and> snd item \<le> 1" by simp
  have pos: "0 < sum_list (map snd (raw_scores [(''joy'', 3 / 4), (''sad'', 1 / 4)]))"
    unfolding raw_joy_sad by simp
  from reconcile_vector [OF ops rng2] pos
  have near: "\<bar>sum_list (map snd (reconcile_fl fsum_up fdiv_down
      [(''joy'', 3 / 4), (''sad'', 1 / 4)])) - 1\<bar> \<le> 1 / 1000000" by blast
  have ne: "sum_list (map snd (reconcile_fl fsum_up fdiv_down
      [(''joy'', 3 / 4), (''sad'', 1 / 4)])) \<noteq> 1"
    unfolding sum_joy_sad by simp
  from calm zero r h pos near ne show ?thesis by simp
qed

lemma reconcile_empty:
  "reconcile [] =
     [(''Anger'', 0), (''Disgust'', 0), (''Fear'', 0), (''Happiness'', 0),
      (''Neutral'', 0), (''Sadness'', 0), (''Surprise'', 0)]"
  by (simp add: reconcile_def raw_scores_def ensure_present_empty normalize_exact
      EMOTION_CONFIG_keys_def)

text \<open>
  The claim of C1 fails at the empty sequence: the Anger slot is 0, not 1/7, and the
  values sum to 0, which is not within 1e-6 of 1.
\<close>

theorem reconcile_empty_counterexample:
  "map_of (reconcile []) ''Anger'' \<noteq> Some (1 / 7) \<and>
   \<not> \<bar>sum_list (map snd (reconcile [])) - 1\<bar> \<le> 1 / 1000000"
  by (simp add: reconcile_empty)

subsection \<open>Several labels in one slot\<close>

lemma raw_joy_happy: "raw_scores [(''joy'', 0.6), (''happy'', 0.3)] = [(''Happiness'', 0.3)]"
  by (simp add: raw_scores_def map_label_first_branch fb_joy fb_happy)

lemma ensure_present_happiness:
  "ensure_present [(''Happiness'', v)] =
     [(''Happiness'', v), (''Anger'', 0), (''Disgust'', 0), (''Fear'', 0),
      (''Neutral'', 0), (''Sadness'', 0), (''Surprise'', 0)]"
  by (simp add: ensure_present_def fill_missing_def EMOTION_CONFIG_keys_def dict_in_simps)

lemma rec_joy_happy:
  "reconcile [(''joy'', 0.6), (''happy'', 0.3)] =
     [(''Happiness'', 1), (''Anger'', 0), (''Disgust'', 0), (''Fear'', 0),
      (''Neutral'', 0), (''Sadness'', 0), (''Surprise'', 0)]"
  unfolding reconcile_def raw_joy_happy ensure_present_happiness
  by (simp add: normalize_exact)

text \<open>
  C2, as the code has it. Each branch assigns (\<open>emotions['Happiness'] = score\<close>), so a
  slot's score before normalisation is the score of the last raw label that falls into
  it; earlier ones are overwritten, not added. The example of the claim still comes out
  as stated: the slot holds 0.3, the total is 0.3, and Happiness is 1 with all other
  slots 0.
\<close>

theorem raw_scores_last_wins:
  "map_of (raw_scores result) slot = last_score slot result \<and>
   reconcile [(''joy'', 0.6), (''happy'', 0.3)] =
     [(''Happiness'', 1), (''Anger'', 0), (''Disgust'', 0), (''Fear'', 0),
       (''Neutral'', 0), (''Sadness'', 0), (''Surprise'', 0)]"
proof
  show "map_of (raw_scores result) slot = last_score slot result"
    using foldl_map_label_lookup [of "[]" result slot]
    by (simp add: raw_scores_def split: option.splits)
  show "reconcile [(''joy'', 0.6), (''happy'', 0.3)] =
     [(''Happiness'', 1), (''Anger'', 0), (''Disgust'', 0), (''Fear'', 0),
       (''Neutral'', 0), (''Sadness'', 0), (''Surprise'', 0)]"
    by (rule rec_joy_happy)
qed

text \<open>
  The claim of C2 fails at its own example: before normalisation the Happiness slot
  holds 0.3, while the sum of the two scores is 0.9.
\<close>

theorem raw_scores_sum_counterexample:
  "map_of (raw_scores [(''joy'', 0.6), (''happy'', 0.3)]) ''Happiness'' = Some 0.3 \<and>
   summed_score ''Happiness'' [(''joy'', 0.6), (''happy'', 0.3)] = 0.9 \<and>
   map_of (raw_scores [(''joy'', 0.6), (''happy'', 0.3)]) ''Happiness'' \<noteq>
     Some (summed_score ''Happiness'' [(''joy'', 0.6), (''happy'', 0.3)])"
  unfolding raw_joy_happy
  by (simp add: summed_score_def fb_joy fb_happy)

subsection \<open>The dominant emotion\<close>

lemma foldl_keep_greater:
  "\<exists>i<length (p # d).
      foldl keep_greater p d = (p # d) ! i \<and>
      (\<forall>j<length (p # d). snd ((p # d) ! j) \<le> snd ((p # d) ! i)) \<and>
      (\<forall>j<i. snd ((p # d) ! j) < snd ((p # d) ! i))"
proof (induction d rule: rev_induct)
  case Nil
  show ?case by simp
next
  case (snoc q d)
  then obtain i where i: "i < length (p # d)"
    and best: "foldl keep_greater p d = (p # d) ! i"
    and ge: "\<forall>j<length (p # d). snd ((p # d) ! j) \<le> snd ((p # d) ! i)"
    and first: "\<forall>j<i. snd ((p # d) ! j) < snd ((p # d) ! i)"
    by blast
  let ?xs = "p # d"
  have app: "p # d @ [q] = ?xs @ [q]" by simp
  show ?case
  proof (cases "snd (?xs ! i) < snd q")
    case True
    have "foldl keep_greater p (d @ [q]) = (?xs @ [q]) ! length ?xs"
      using True best by (simp add: keep_greater_def)
    moreover have "\<forall>j<length (?xs @ [q]). snd ((?xs @ [q]) ! j) \<le> snd q"
    proof (intro allI impI)
      fix j assume "j < length (?xs @ [q])"
      then consider "j < length ?xs" | "j = length ?xs" by fastforce
      then show "snd ((?xs @ [q]) ! j) \<le> snd q"
      proof cases
        case 1
        then have "snd ((?xs @ [q]) ! j) = snd (?xs ! j)" by (simp only: nth_append if_True)
        also have "\<dots> \<le> snd (?xs ! i)" using ge 1 by blast
        finally show ?thesis using True by simp
      next
        case 2
        then show ?thesis by (simp only: nth_append_length order_refl)
      qed
    qed
    moreover have "\<forall>j<length ?xs. snd ((?xs @ [q]) ! j) < snd q"
    proof (intro allI impI)
      fix j assume 1: "j < length ?xs"
      then have "snd ((?xs @ [q]) ! j) = snd (?xs ! j)" by (simp only: nth_append if_True)
      also have "\<dots> \<le> snd (?xs ! i)" using ge 1 by blast
      finally show "snd ((?xs @ [q]) ! j) < snd q" using True by simp
    qed
    ultimately show ?thesis
      unfolding app
      by (intro exI [of _ "length ?xs"]) (simp only: nth_append_length length_append_singleton lessI simp_thms)
  next
    case False
    have at_i: "(?xs @ [q]) ! i = ?xs ! i" using i by (simp only: nth_append if_True)
    have "foldl keep_greater p (d @ [q]) = ?xs ! i"
      using False best by (simp add: keep_greater_def)
    then have r: "foldl keep_greater p (d @ [q]) = (?xs @ [q]) ! i"
      by (simp only: at_i)
    have "\<forall>j<length (?xs @ [q]). snd ((?xs @ [q]) ! j) \<le> snd (?xs ! i)"
    proof (intro allI impI)
      fix j assume "j < length (?xs @ [q])"
      then consider "j < length ?xs" | "j = length ?xs" by fastforce
      then show "snd ((?xs @ [q]) ! j) \<le> snd (?xs ! i)"
      proof cases
        case 1
        then have "snd ((?xs @ [q]) ! j) = snd (?xs ! j)" by (simp only: nth_append if_True)
        then show ?thesis using ge 1 by simp
      next
        case 2
        then have "(?xs @ [q]) ! j = q" by (simp only: nth_append_length)
        then show ?thesis using False by simp
      qed
    qed
    moreover have "\<forall>j<i. snd ((?xs @ [q]) ! j) < snd (?xs ! i)"
    proof (intro allI impI)
      fix j assume ji: "j < i"
      then have "j < length ?xs" using i by simp
      then have "snd ((?xs @ [q]) ! j) = snd (?xs ! j)" by (simp only: nth_append if_True)
      then show "snd ((?xs @ [q]) ! j) < snd (?xs ! i)" using first ji by simp
    qed
    moreover have "i < length (?xs @ [q])" using i by simp
    ultimately show ?thesis
      unfolding app using r by (intro exI [of _ i]) (simp only: at_i simp_thms)
  qed
qed

lemma max_key_first_max:
  assumes "max_key ems = Inr k"
  shows "\<exists>i<length ems. k = fst (ems ! i) \<and>
           (\<forall>j<length ems. snd (ems ! j) \<le> snd (ems ! i)) \<and>
           (\<forall>j<i. snd (ems ! j) < snd (ems ! i))"
proof (cases ems)
  case Nil
  with assms show ?thesis by simp
next
  case (Cons p d)
  with assms have k: "k = fst (foldl keep_greater p d)" by simp
  from foldl_keep_greater [of p d] k show ?thesis unfolding Cons by metis
qed

lemma save_recording_Inr:
  assumes "save_recording ems path inten now st = Inr st'"
  shows "\<exists>k m. max_key ems = Inr k \<and> max_value ems = Inr m \<and>
          st' = st\<lparr>recordings := recordings st @
                 [\<lparr>timestamp = now, emotions = ems, dominant_emotion = k,
                   confidence = m, intensity = inten, audio_path = path,
                   language = selected_language st\<rparr>]\<rparr>"
  using assms by (auto simp: save_recording_def split: sum.splits)

lemma save_recording_nonempty:
  assumes "ems \<noteq> []"
  shows "\<exists>k m. max_key ems = Inr k \<and> max_value ems = Inr m \<and>
          save_recording ems path inten now st =
            Inr (st\<lparr>recordings := recordings st @
                 [\<lparr>timestamp = now, emotions = ems, dominant_emotion = k,
                   confidence = m, intensity = inten, audio_path = path,
                   language = selected_language st\<rparr>]\<rparr>)"
  using assms by (cases ems) (simp_all add: save_recording_def)

text \<open>
  C3, as the code has it. The recording that \<open>save_recording\<close> appends stores the
  vector it was given, and its \<open>dominant_emotion\<close> is a key carrying the maximum score;
  among several keys with the maximum it is the one that comes first in the vector's
  own key order. That order is the dict's insertion order: the slots in the order in
  which the classifier's labels first reached them, then the remaining slots in
  canonical order. For a vector whose keys are in canonical order, Anger = Disgust =
  0.5 gives Anger.
\<close>

theorem save_recording_dominant:
  assumes "save_recording ems path inten now st = Inr st'"
  shows "emotions (last (recordings st')) = ems \<and>
         (\<exists>i<length ems.
            dominant_emotion (last (recordings st')) = fst (ems ! i) \<and>
            (\<forall>j<length ems. snd (ems ! j) \<le> snd (ems ! i)) \<and>
            (\<forall>j<i. snd (ems ! j) < snd (ems ! i)))"
proof -
  from save_recording_Inr [OF assms] obtain k m where
    k: "max_key ems = Inr k" and
    st': "st' = st\<lparr>recordings := recordings st @
                 [\<lparr>timestamp = now, emotions = ems, dominant_emotion = k,
                   confidence = m, intensity = inten, audio_path = path,
                   language = selected_language st\<rparr>]\<rparr>"
    by blast
  have "emotions (last (recordings st')) = ems" "dominant_emotion (last (recordings st')) = k"
    by (simp_all add: st')
  with max_key_first_max [OF k] show ?thesis by simp
qed

lemma save_tied:
  "save_recording tied_vector ''/tmp/a.wav'' (1 / 2) ''2024-01-01T00:00:00'' session0 =
     Inr (session0\<lparr>recordings :=
       [\<lparr>timestamp = ''2024-01-01T00:00:00'', emotions = tied_vector,
         dominant_emotion = ''Anger'', confidence = 1 / 2, intensity = 1 / 2,
         audio_path = ''/tmp/a.wav'', language = ''English''\<rparr>]\<rparr>)"
  by (simp add: save_recording_def tied_vector_def session0_def keep_greater_def)

theorem save_recording_dominant_witness:
  "save_recording tied_vector ''/tmp/a.wav'' (1 / 2) ''2024-01-01T00:00:00'' session0 =
     Inr (session0\<lparr>recordings :=
       [\<lparr>timestamp = ''2024-01-01T00:00:00'', emotions = tied_vector,
         dominant_emotion = ''Anger'', confidence = 1 / 2, intensity = 1 / 2,
         audio_path = ''/tmp/a.wav'', language = ''English''\<rparr>]\<rparr>) \<and>
   emotions (last (recordings (session0\<lparr>recordings :=
       [\<lparr>timestamp = ''2024-01-01T00:00:00'', emotions = tied_vector,
         dominant_emotion = ''Anger'', confidence = 1 / 2, intensity = 1 / 2,
         audio_path = ''/tmp/a.wav'', language = ''English''\<rparr>]\<rparr>))) = tied_vector"
  using save_recording_dominant [OF save_tied] save_tied by simp

lemma raw_disgust_anger:
  "raw_scores [(''disgust'', 1 / 2), (''anger'', 1 / 2)] = [(''Disgust'', 1 / 2), (''Anger'', 1 / 2)]"
  by (simp add: raw_scores_def map_label_first_branch fb_disgust fb_anger)

lemma ensure_disgust_anger:
  "ensure_present [(''Disgust'', v), (''Anger'', w)] =
     [(''Disgust'', v), (''Anger'', w), (''Fear'', 0), (''Happiness'', 0),
      (''Neutral'', 0), (''Sadness'', 0), (''Surprise'', 0)]"
  by (simp add: ensure_present_def fill_missing_def EMOTION_CONFIG_keys_def dict_in_simps)

lemma reconcile_disgust_anger:
  "reconcile [(''disgust'', 1 / 2), (''anger'', 1 / 2)] =
     [(''Disgust'', 1 / 2), (''Anger'', 1 / 2), (''Fear'', 0), (''Happiness'', 0),
      (''Neutral'', 0), (''Sadness'', 0), (''Surprise'', 0)]"
  unfolding reconcile_def raw_disgust_anger ensure_disgust_anger
  by (simp add: normalize_exact)

text \<open>
  The claim of C3 fails when the classifier returns "disgust" before "anger" with equal
  scores: the stored vector has Anger = Disgust = 0.5 and all other slots 0, and the
  dominant emotion is Disgust.
\<close>

theorem dominant_order_counterexample:
  "analyze session0 ''/tmp/a.wav'' (1 / 2) ''2024-01-01T00:00:00''
     (Inr [(''disgust'', 1 / 2), (''anger'', 1 / 2)]) =
   Inr (session0\<lparr>recordings :=
     [\<lparr>timestamp = ''2024-01-01T00:00:00'',
       emotions = [(''Disgust'', 1 / 2), (''Anger'', 1 / 2), (''Fear'', 0),
                   (''Happiness'', 0), (''Neutral'', 0), (''Sadness'', 0), (''Surprise'', 0)],
       dominant_emotion = ''Disgust'', confidence = 1 / 2, intensity = 1 / 2,
       audio_path = ''/tmp/a.wav'', language = ''English''\<rparr>]\<rparr>)"
  by (simp add: analyze_def get_emotion_from_huggingface_def reconcile_disgust_anger
      save_recording_def session0_def keep_greater_def)

subsection \<open>A failed classification\<close>

text \<open>
  C4. When no token is configured or the classifier call raises, the analysis step
  returns the session state it was given: nothing is appended. When there is a token
  and the classifier answers, exactly one recording is appended, complete, with the
  reconciled vector, its first maximal key and its maximum.
\<close>

theorem analyze_all_or_nothing:
  "((hf_token st = [] \<or> api_result = Inl e) \<longrightarrow>
      analyze st path inten now api_result = Inr st) \<and>
   ((hf_token st \<noteq> [] \<and> api_result = Inr result) \<longrightarrow>
      (\<exists>k m. max_key (reconcile result) = Inr k \<and> max_value (reconcile result) = Inr m \<and>
         analyze st path inten now api_result =
           Inr (st\<lparr>recordings := recordings st @
                 [\<lparr>timestamp = now, emotions = reconcile result, dominant_emotion = k,
                   confidence = m, intensity = inten, audio_path = path,
                   language = selected_language st\<rparr>]\<rparr>)))"
proof (intro conjI impI)
  assume "hf_token st = [] \<or> api_result = Inl e"
  then show "analyze st path inten now api_result = Inr st"
    by (auto simp: analyze_def get_emotion_from_huggingface_def)
next
  assume a: "hf_token st \<noteq> [] \<and> api_result = Inr result"
  then have "analyze st path inten now api_result =
      save_recording (reconcile result) path inten now st"
    by (simp add: analyze_def get_emotion_from_huggingface_def reconcile_nonempty)
  with save_recording_nonempty [OF reconcile_nonempty, of result path inten now st]
  show "\<exists>k m. max_key (reconcile result) = Inr k \<and> max_value (reconcile result) = Inr m \<and>
         analyze st path inten now api_result =
           Inr (st\<lparr>recordings := recordings st @
                 [\<lparr>timestamp = now, emotions = reconcile result, dominant_emotion = k,
                   confidence = m, intensity = inten, audio_path = path,
                   language = selected_language st\<rparr>]\<rparr>)"
    by auto
qed

theorem analyze_all_or_nothing_witness:
  "analyze (session0\<lparr>hf_token := []\<rparr>) ''/tmp/a.wav'' (1 / 2) ''2024-01-01T00:00:00''
     (Inr [(''anger'', 1)]) = Inr (session0\<lparr>hf_token := []\<rparr>) \<and>
   analyze session0 ''/tmp/a.wav'' (1 / 2) ''2024-01-01T00:00:00'' (Inl ClassifierError) =
     Inr session0 \<and>
   hf_token session0 \<noteq> [] \<and>
   length (recordings (case analyze session0 ''/tmp/a.wav'' (1 / 2) ''2024-01-01T00:00:00''
     (Inr [(''anger'', 1)]) of Inr s \<Rightarrow> s | Inl e \<Rightarrow> session0)) = 1"
proof -
  have tok: "hf_token session0 \<noteq> []" by (simp add: session0_def)
  have e: "hf_token (session0\<lparr>hf_token := []\<rparr>) = []" by simp
  from analyze_all_or_nothing [of "session0\<lparr>hf_token := []\<rparr>" "Inr [(''anger'', 1)]"] e
  have 1: "analyze (session0\<lparr>hf_token := []\<rparr>) ''/tmp/a.wav'' (1 / 2) ''2024-01-01T00:00:00''
     (Inr [(''anger'', 1)]) = Inr (session0\<lparr>hf_token := []\<rparr>)" by blast
  from analyze_all_or_nothing [of session0 "Inl ClassifierError" ClassifierError]
  have 2: "analyze session0 ''/tmp/a.wav'' (1 / 2) ''2024-01-01T00:00:00'' (Inl ClassifierError) =
     Inr session0" by blast
  from analyze_all_or_nothing [of session0 "Inr [(''anger'', 1)]" _ "''/tmp/a.wav''" "1 / 2"
      "''2024-01-01T00:00:00''" "[(''anger'', 1)]"] tok
  obtain k m where "analyze session0 ''/tmp/a.wav'' (1 / 2) ''2024-01-01T00:00:00''
      (Inr [(''anger'', 1)]) =
        Inr (session0\<lparr>recordings := recordings session0 @
                 [\<lparr>timestamp = ''2024-01-01T00:00:00'', emotions = reconcile [(''anger'', 1)],
                   dominant_emotion = k,
                   confidence = m, intensity = 1 / 2, audio_path = ''/tmp/a.wav'',
                   language = selected_language session0\<rparr>]\<rparr>)" by blast
  then have 3: "length (recordings (case analyze session0 ''/tmp/a.wav'' (1 / 2)
     ''2024-01-01T00:00:00'' (Inr [(''anger'', 1)]) of Inr s \<Rightarrow> s | Inl e \<Rightarrow> session0)) = 1"
    by (simp add: session0_def)
  from 1 2 3 tok show ?thesis by simp
qed

subsection \<open>Adjusting the confidence\<close>

lemma update_last: "xs \<noteq> [] \<Longrightarrow> xs[length xs - Suc 0 := v] = butlast xs @ [v]"
  by (induction xs rule: rev_induct) (simp_all add: list_update_append)

lemma scale_confidence_Inr:
  assumes "recordings st \<noteq> []"
  shows "scale_confidence factor st =
           Inr (st\<lparr>recordings := butlast (recordings st) @
                  [(last (recordings st))\<lparr>confidence :=
                      confidence (last (recordings st)) * factor\<rparr>]\<rparr>)"
  using assms by (simp add: scale_confidence_def update_last)

text \<open>
  C7. On a non-empty list of recordings, a confidence adjustment succeeds and changes
  only the \<open>confidence\<close> of the last recording: all recordings before it, every other
  field of the last one (the emotion vector included, which is not renormalised), the
  selected language and the token are as before.
\<close>

theorem scale_confidence_frame:
  assumes "recordings st \<noteq> []"
  shows "\<exists>st'. scale_confidence factor st = Inr st' \<and>
           length (recordings st') = length (recordings st) \<and>
           butlast (recordings st') = butlast (recordings st) \<and>
           last (recordings st') =
             (last (recordings st))\<lparr>confidence := confidence (last (recordings st)) * factor\<rparr> \<and>
           emotions (last (recordings st')) = emotions (last (recordings st)) \<and>
           dominant_emotion (last (recordings st')) = dominant_emotion (last (recordings st)) \<and>
           timestamp (last (recordings st')) = timestamp (last (recordings st)) \<and>
           language (last (recordings st')) = language (last (recordings st)) \<and>
           intensity (last (recordings st')) = intensity (last (recordings st)) \<and>
           audio_path (last (recordings st')) = audio_path (last (recordings st)) \<and>
           selected_language st' = selected_language st \<and>
           hf_token st' = hf_token st"
  using assms by (simp add: scale_confidence_Inr)

theorem scale_confidence_frame_witness:
  "recordings (session0\<lparr>recordings :=
       [\<lparr>timestamp = ''2024-01-01T00:00:00'', emotions = tied_vector,
         dominant_emotion = ''Anger'', confidence = 1 / 2, intensity = 1 / 2,
         audio_path = ''/tmp/a.wav'', language = ''English''\<rparr>]\<rparr>) \<noteq> [] \<and>
   (\<exists>st'. scale_confidence (11 / 10) (session0\<lparr>recordings :=
       [\<lparr>timestamp = ''2024-01-01T00:00:00'', emotions = tied_vector,
         dominant_emotion = ''Anger'', confidence = 1 / 2, intensity = 1 / 2,
         audio_path = ''/tmp/a.wav'', language = ''English''\<rparr>]\<rparr>) = Inr st' \<and>
      emotions (last (recordings st')) = tied_vector \<and>
      confidence (last (recordings st')) = 11 / 20)"
proof -
  let ?st = "session0\<lparr>recordings :=
       [\<lparr>timestamp = ''2024-01-01T00:00:00'', emotions = tied_vector,
         dominant_emotion = ''Anger'', confidence = 1 / 2, intensity = 1 / 2,
         audio_path = ''/tmp/a.wav'', language = ''English''\<rparr>]\<rparr>"
  have ne: "recordings ?st \<noteq> []" by simp
  from scale_confidence_frame [OF ne, of "11 / 10"] obtain st' where
    "scale_confidence (11 / 10) ?st = Inr st'"
    "last (recordings st') = (last (recordings ?st))\<lparr>confidence := confidence (last (recordings ?st)) * (11 / 10)\<rparr>"
    by blast
  then show ?thesis using ne by (intro conjI exI [of _ st']) simp_all
qed

subsection \<open>Resetting the confidence\<close>

lemma max_value_is_max:
  assumes "max_value ems = Inr m"
  shows "m \<in> snd ` set ems \<and> (\<forall>p\<in>set ems. snd p \<le> m)"
proof (cases ems)
  case Nil
  with assms show ?thesis by simp
next
  case (Cons p d)
  have f: "foldl max a xs \<in> insert a (set xs) \<and> a \<le> foldl max a xs \<and>
      (\<forall>x\<in>set xs. x \<le> foldl max a xs)" for a :: real and xs
  proof (induction xs arbitrary: a)
    case Nil
    show ?case by simp
  next
    case (Cons x xs)
    from Cons [of "max a x"] show ?case by (auto simp: max_def split: if_splits)
  qed
  from assms Cons have m: "m = foldl max (snd p) (map snd d)" by simp
  from f [of "snd p" "map snd d"] show ?thesis unfolding Cons m by auto
qed

lemma update_same: "xs \<noteq> [] \<Longrightarrow> xs[length xs - Suc 0 := last xs] = xs"
  by (induction xs rule: rev_induct) (simp_all add: list_update_append)

lemma reset_after_save:
  assumes "save_recording ems path inten now st = Inr st1"
  shows "reset_confidence ems st1 = Inr st1"
proof -
  from save_recording_Inr [OF assms] obtain k m where
    m: "max_value ems = Inr m" and
    st1: "st1 = st\<lparr>recordings := recordings st @
                 [\<lparr>timestamp = now, emotions = ems, dominant_emotion = k,
                   confidence = m, intensity = inten, audio_path = path,
                   language = selected_language st\<rparr>]\<rparr>"
    by blast
  have ne: "recordings st1 \<noteq> []" by (simp add: st1)
  have "(last (recordings st1))\<lparr>confidence := m\<rparr> = last (recordings st1)"
    by (simp add: st1)
  then have "reset_confidence ems st1 =
      Inr (st1\<lparr>recordings := (recordings st1)[length (recordings st1) - Suc 0 :=
          last (recordings st1)]\<rparr>)"
    using ne m by (simp add: reset_confidence_def)
  also have "\<dots> = Inr st1" using ne by (simp add: update_same)
  finally show ?thesis .
qed


lemma main_run_no_button:
  "main_run st path inten now api_result NoButton = analyze st path inten now api_result"
  by (simp add: main_run_def analyze_def split: option.splits sum.splits)

lemma main_run_frame:
  assumes "main_run st path inten now api_result pressed = Inr st'"
  shows "take (length (recordings st)) (recordings st') = recordings st"
proof (cases "get_emotion_from_huggingface (hf_token st) api_result")
  case None
  with assms show ?thesis by (simp add: main_run_def)
next
  case (Some ems)
  show ?thesis
  proof (cases "ems = []")
    case True
    with assms Some show ?thesis by (simp add: main_run_def)
  next
    case False
    from save_recording_nonempty [OF False, of path inten now st] obtain k m where
      sv: "save_recording ems path inten now st =
            Inr (st\<lparr>recordings := recordings st @
                 [\<lparr>timestamp = now, emotions = ems, dominant_emotion = k,
                   confidence = m, intensity = inten, audio_path = path,
                   language = selected_language st\<rparr>]\<rparr>)" by blast
    let ?st1 = "st\<lparr>recordings := recordings st @
                 [\<lparr>timestamp = now, emotions = ems, dominant_emotion = k,
                   confidence = m, intensity = inten, audio_path = path,
                   language = selected_language st\<rparr>]\<rparr>"
    have ne: "recordings ?st1 \<noteq> []" by simp
    have bl: "butlast (recordings ?st1) = recordings st" by simp
    show ?thesis
    proof (cases pressed)
      case NoButton
      with assms Some False sv show ?thesis by (auto simp: main_run_def)
    next
      case IncreaseConfidence
      with assms Some False sv have "increase_confidence ?st1 = Inr st'"
        by (simp add: main_run_def)
      then show ?thesis
        unfolding increase_confidence_def scale_confidence_Inr [OF ne] by auto
    next
      case DecreaseConfidence
      with assms Some False sv have "decrease_confidence ?st1 = Inr st'"
        by (simp add: main_run_def)
      then show ?thesis
        unfolding decrease_confidence_def scale_confidence_Inr [OF ne] by auto
    next
      case Reset
      with assms Some False sv have "reset_confidence ems ?st1 = Inr st'"
        by (simp add: main_run_def)
      with reset_after_save [OF sv] show ?thesis by auto
    qed
  qed
qed






subsection \<open>A silent signal\<close>

lemma np_max_abs_silent:
  "y \<noteq> [] \<Longrightarrow> \<forall>s\<in>set y. s = 0 \<Longrightarrow> np_max_abs y = Inr 0"
proof (cases y)
  case Nil
  assume "y \<noteq> []" with Nil show ?thesis by simp
next
  case (Cons s t)
  assume z: "\<forall>s\<in>set y. s = 0"
  have "foldl max (0::real) (map abs t) = 0" if "\<forall>s\<in>set t. s = 0" for t :: "real list"
    using that by (induction t) simp_all
  with z Cons show ?thesis by simp
qed

lemma preprocess_audio_silent:
  assumes "\<forall>s\<in>set (trim y0). s = 0"
    and "sf_write (replace_wav path) (replicate (length (trim y0)) NaN) = Inr ()"
  shows "preprocess_audio (Inr y0) trim sf_write path =
           (if trim y0 = [] then \<lparr>returned_path = path, written = None, warned = True\<rparr>
            else \<lparr>returned_path = replace_wav path,
                  written = Some (replicate (length (trim y0)) NaN), warned = False\<rparr>)"
proof (cases "trim y0 = []")
  case True
  then show ?thesis by (simp add: preprocess_audio_def)
next
  case False
  have "map (\<lambda>s. np_divide s 0) (trim y0) = replicate (length (trim y0)) NaN"
    using assms(1)
    by (induction "trim y0") (simp_all add: np_divide_def map_replicate_const [symmetric] map_eq_conv)
  with False np_max_abs_silent [OF False assms(1)] assms(2) show ?thesis
    by (simp add: preprocess_audio_def)
qed

lemma preprocess_audio_write_fails:
  assumes "np_max_abs (trim y0) = Inr peak"
    and "sf_write (replace_wav path) (map (\<lambda>s. np_divide s peak) (trim y0)) = Inl e"
  shows "preprocess_audio (Inr y0) trim sf_write path =
           \<lparr>returned_path = path, written = None, warned = True\<rparr>"
  using assms by (simp add: preprocess_audio_def)

text \<open>
  C5 at a silent input. Three zero samples, which trimming leaves as they are, and a
  path ending in .wav, which \<open>sf.write\<close> accepts: the peak is 0, every sample becomes
  0/0, and the function hands three \<open>nan\<close> samples to \<open>sf.write\<close> and returns the processed
  path, with no warning. The normalisation is not skipped and the normalised signal is
  not the silent one.
\<close>

theorem preprocess_audio_silent_nan:
  "preprocess_audio (Inr [0, 0, 0]) (\<lambda>y. y) (\<lambda>p a. Inr ()) ''/tmp/recorded_audio.wav'' =
     \<lparr>returned_path = ''/tmp/recorded_audio_processed.wav'',
      written = Some [NaN, NaN, NaN], warned = False\<rparr>"
  by (simp add: preprocess_audio_def np_divide_def)

subsection \<open>A corrupted line in the feedback log\<close>

lemma read_feedback_entries: "read_feedback (map Entry df) = Inr df"
  by (induction df) simp_all

lemma read_feedback_corrupted:
  "Corrupted s \<in> set file_lines \<Longrightarrow> read_feedback file_lines = Inl JSONDecodeError"
proof (induction file_lines)
  case Nil
  then show ?case by simp
next
  case (Cons l ls)
  show ?case
  proof (cases l)
    case (Entry e)
    with Cons show ?thesis by simp
  next
    case (Corrupted t)
    then show ?thesis by simp
  qed
qed

lemma all_entries:
  "\<forall>s. Corrupted s \<notin> set file_lines \<Longrightarrow> \<exists>df. file_lines = map Entry df"
proof (induction file_lines)
  case Nil
  show ?case by simp
next
  case (Cons l ls)
  then obtain df where df: "ls = map Entry df" by auto
  from Cons.prems obtain e where "l = Entry e" by (cases l) auto
  with df have "l # ls = map Entry (e # df)" by simp
  then show ?case by (rule exI)
qed

text \<open>
  C8, as the code has it. If any line of the log is corrupted, reading it raises
  \<open>JSONDecodeError\<close> and no statistic is computed. If no line is corrupted and the log
  is not empty, accuracy, mean helpfulness and count are computed over all lines.
\<close>

theorem feedback_statistics_corrupted:
  "((\<exists>s. Corrupted s \<in> set file_lines) \<longrightarrow>
      feedback_statistics file_lines = Inl JSONDecodeError) \<and>
   ((\<forall>s. Corrupted s \<notin> set file_lines) \<and> file_lines \<noteq> [] \<longrightarrow>
      (\<exists>df. file_lines = map Entry df \<and>
         feedback_statistics file_lines = Inr (accuracy df, avg_helpfulness df, length df)))"
proof (intro conjI impI)
  assume "\<exists>s. Corrupted s \<in> set file_lines"
  then show "feedback_statistics file_lines = Inl JSONDecodeError"
    by (auto simp: feedback_statistics_def read_feedback_corrupted)
next
  assume a: "(\<forall>s. Corrupted s \<notin> set file_lines) \<and> file_lines \<noteq> []"
  then obtain df where df: "file_lines = map Entry df" using all_entries by blast
  with a have "df \<noteq> []" by auto
  then have "feedback_statistics file_lines = Inr (accuracy df, avg_helpfulness df, length df)"
    by (simp add: feedback_statistics_def df read_feedback_entries)
  with df show "\<exists>df. file_lines = map Entry df \<and>
         feedback_statistics file_lines = Inr (accuracy df, avg_helpfulness df, length df)"
    by (intro exI [of _ df] conjI)
qed

theorem feedback_statistics_corrupted_witness:
  "feedback_statistics [Entry feedback1, Corrupted ''{oops'', Entry feedback1] =
     Inl JSONDecodeError \<and>
   feedback_statistics [Entry feedback1, Entry feedback1] =
     Inr (accuracy [feedback1, feedback1], avg_helpfulness [feedback1, feedback1], 2)"
proof -
  have 1: "\<exists>s. Corrupted s \<in> set [Entry feedback1, Corrupted ''{oops'', Entry feedback1]"
    by simp
  have 2: "(\<forall>s. Corrupted s \<notin> set [Entry feedback1, Entry feedback1]) \<and>
           [Entry feedback1, Entry feedback1] \<noteq> []" by simp
  from feedback_statistics_corrupted [of "[Entry feedback1, Corrupted ''{oops'', Entry feedback1]",
      THEN conjunct1, THEN mp, OF 1]
  have a: "feedback_statistics [Entry feedback1, Corrupted ''{oops'', Entry feedback1] =
     Inl JSONDecodeError" .
  from feedback_statistics_corrupted [of "[Entry feedback1, Entry feedback1]",
      THEN conjunct2, THEN mp, OF 2]
  have "feedback_statistics [Entry feedback1, Entry feedback1] =
     Inr (accuracy [feedback1, feedback1], avg_helpfulness [feedback1, feedback1], 2)"
    by (auto simp: map_eq_Cons_conv)
  with a show ?thesis by simp
qed

text \<open>
  The claim of C8 fails on a log of one corrupted line followed by one well-formed
  line: the statistics are an error, not those of the well-formed line alone.
\<close>

theorem corrupted_line_counterexample:
  "feedback_statistics [Corrupted ''{oops'', Entry feedback1] = Inl JSONDecodeError \<and>
   feedback_statistics [Entry feedback1] = Inr (100, 5, 1)"
  by (simp add: feedback_statistics_def accuracy_def avg_helpfulness_def feedback1_def)

subsection \<open>The most common emotion\<close>

lemma max_key_in_keys:
  assumes "max_key ems = Inr k"
  shows "k \<in> fst ` set ems"
proof -
  from max_key_first_max [OF assms] obtain i where "i < length ems" "k = fst (ems ! i)"
    by blast
  then show ?thesis by (metis image_eqI nth_mem)
qed

lemma analyze_canonical:
  assumes "\<forall>r\<in>set (recordings st). dominant_emotion r \<in> set EMOTION_CONFIG_keys"
    and "analyze st path inten now api_result = Inr st'"
  shows "\<forall>r\<in>set (recordings st'). dominant_emotion r \<in> set EMOTION_CONFIG_keys"
proof (cases "get_emotion_from_huggingface (hf_token st) api_result")
  case None
  with assms show ?thesis by (simp add: analyze_def)
next
  case (Some ems)
  then obtain result where ems: "ems = reconcile result"
    by (auto simp: get_emotion_from_huggingface_def split: if_splits sum.splits)
  have "ems \<noteq> []" unfolding ems by (rule reconcile_nonempty)
  with Some assms(2) have "save_recording ems path inten now st = Inr st'"
    by (simp add: analyze_def)
  from save_recording_Inr [OF this] obtain k m where
    k: "max_key ems = Inr k" and
    st': "st' = st\<lparr>recordings := recordings st @
                 [\<lparr>timestamp = now, emotions = ems, dominant_emotion = k,
                   confidence = m, intensity = inten, audio_path = path,
                   language = selected_language st\<rparr>]\<rparr>"
    by blast
  have "k \<in> set EMOTION_CONFIG_keys"
    using max_key_in_keys [OF k] reconcile_keys [of result] by (simp add: ems)
  with assms(1) show ?thesis by (auto simp: st')
qed

lemma foldr_max_ge: "y \<in> set ys \<Longrightarrow> f y \<le> foldr max (map f ys) (0::nat)"
  by (induction ys) auto

lemma foldr_max_attained:
  "ys \<noteq> [] \<Longrightarrow> \<exists>y\<in>set ys. f y = foldr max (map f ys) (0::nat)"
proof (induction ys)
  case Nil
  then show ?case by simp
next
  case (Cons y ys)
  show ?case
  proof (cases "ys = []")
    case True
    then show ?thesis by simp
  next
    case False
    with Cons.IH obtain z where z: "z \<in> set ys" "f z = foldr max (map f ys) 0" by blast
    have step: "foldr max (map f (y # ys)) 0 = max (f y) (f z)" using z by simp
    show ?thesis
    proof (cases "f y \<le> f z")
      case True
      then have "f z = foldr max (map f (y # ys)) 0" unfolding step by (simp only: max_absorb2)
      moreover have "z \<in> set (y # ys)" using z by simp
      ultimately show ?thesis by blast
    next
      case False
      then have "f y = foldr max (map f (y # ys)) 0" unfolding step by (simp only: max_def if_False)
      moreover have "y \<in> set (y # ys)" by simp
      ultimately show ?thesis by blast
    qed
  qed
qed

lemma count_le_max_count: "count_list xs l \<le> max_count xs"
proof (cases "l \<in> set xs")
  case True
  then show ?thesis unfolding max_count_def by (rule foldr_max_ge)
next
  case False
  then show ?thesis by (simp add: count_list_0_iff)
qed

lemma set_series_mode:
  "set (series_mode xs) = {v \<in> set xs. count_list xs v = max_count xs}"
  by (auto simp: series_mode_def)

lemma series_mode_nonempty: "xs \<noteq> [] \<Longrightarrow> series_mode xs \<noteq> []"
proof -
  assume "xs \<noteq> []"
  from foldr_max_attained [OF this, of "count_list xs"]
  obtain v where "v \<in> set xs" "count_list xs v = max_count xs"
    by (auto simp: max_count_def)
  then have "v \<in> set (series_mode xs)" by (simp add: set_series_mode)
  then show ?thesis by auto
qed

lemma series_mode_head:
  assumes "series_mode xs = m # ms"
  shows "m \<in> set xs \<and> count_list xs m = max_count xs \<and>
         (\<forall>l\<in>set xs. count_list xs l = max_count xs \<longrightarrow> m \<le> l)"
proof -
  have "sorted (series_mode xs)" by (simp add: series_mode_def)
  with assms have le: "\<forall>l\<in>set (series_mode xs). m \<le> l" by auto
  have "m \<in> set (series_mode xs)" using assms by simp
  with le show ?thesis by (simp add: set_series_mode)
qed

lemma canonical_sorted: "sorted_wrt (<) EMOTION_CONFIG_keys"
  by (simp add: EMOTION_CONFIG_keys_def)

lemma index_of_mono:
  "sorted_wrt (<) ks \<Longrightarrow> a \<in> set ks \<Longrightarrow> b \<in> set ks \<Longrightarrow> a < b \<Longrightarrow>
   index_of a ks < index_of (b::string) ks"
proof (induction ks)
  case Nil
  then show ?case by simp
next
  case (Cons k ks)
  then show ?case by (auto dest: less_asym)
qed

lemma canonical_index_mono:
  "a \<in> set EMOTION_CONFIG_keys \<Longrightarrow> b \<in> set EMOTION_CONFIG_keys \<Longrightarrow> a < b \<Longrightarrow>
   canonical_index a < canonical_index b"
  unfolding canonical_index_def by (rule index_of_mono [OF canonical_sorted])

text \<open>
  C9. For a non-empty store whose dominant emotions are canonical labels,
  \<open>most_common\<close> returns a label of the store that no label exceeds in frequency, and
  every other label of the same frequency comes later in the canonical order.
\<close>

theorem most_common_mode:
  assumes "rs \<noteq> []" and "\<forall>r\<in>set rs. dominant_emotion r \<in> set EMOTION_CONFIG_keys"
  shows "\<exists>m. most_common rs = Inr m \<and>
           m \<in> set (map dominant_emotion rs) \<and>
           (\<forall>l. count_list (map dominant_emotion rs) l \<le> count_list (map dominant_emotion rs) m) \<and>
           (\<forall>l. l \<noteq> m \<and>
                count_list (map dominant_emotion rs) l = count_list (map dominant_emotion rs) m
                \<longrightarrow> canonical_index m < canonical_index l)"
proof -
  let ?xs = "map dominant_emotion rs"
  have ne: "?xs \<noteq> []" using assms(1) by simp
  have canon: "\<forall>l\<in>set ?xs. l \<in> set EMOTION_CONFIG_keys" using assms(2) by auto
  from series_mode_nonempty [OF ne] obtain m ms where mode: "series_mode ?xs = m # ms"
    by (cases "series_mode ?xs") auto
  from series_mode_head [OF mode] have m_in: "m \<in> set ?xs"
    and m_count: "count_list ?xs m = max_count ?xs"
    and m_least: "\<forall>l\<in>set ?xs. count_list ?xs l = max_count ?xs \<longrightarrow> m \<le> l"
    by blast+
  have res: "most_common rs = Inr m" by (simp add: most_common_def mode)
  have most: "\<forall>l. count_list ?xs l \<le> count_list ?xs m"
    by (simp only: m_count count_le_max_count simp_thms)
  have tie: "canonical_index m < canonical_index l"
    if "l \<noteq> m \<and> count_list ?xs l = count_list ?xs m" for l
  proof -
    have "count_list ?xs m \<noteq> 0" using m_in by (simp only: count_list_0_iff not_not)
    with that have "count_list ?xs l \<noteq> 0" by simp
    then have "l \<in> set ?xs" by (simp only: count_list_0_iff not_not)
    moreover from that m_count have "count_list ?xs l = max_count ?xs" by simp
    ultimately have "m \<le> l" using m_least by blast
    with that have "m < l" by (auto simp: less_le)
    with canon m_in \<open>l \<in> set ?xs\<close> show ?thesis by (intro canonical_index_mono) blast+
  qed
  from res m_in most tie show ?thesis by blast
qed

lemma most_common_example: "most_common [sad_rec, anger_rec, sad_rec, anger_rec] = Inr ''Anger''"
  by (simp add: most_common_def series_mode_def max_count_def sad_rec_def anger_rec_def)

theorem most_common_mode_witness:
  "[sad_rec, anger_rec, sad_rec, anger_rec] \<noteq> [] \<and>
   dominant_emotion sad_rec \<in> set EMOTION_CONFIG_keys \<and>
   dominant_emotion anger_rec \<in> set EMOTION_CONFIG_keys \<and>
   most_common [sad_rec, anger_rec, sad_rec, anger_rec] = Inr ''Anger'' \<and>
   canonical_index ''Anger'' < canonical_index ''Sadness''"
proof -
  let ?rs = "[sad_rec, anger_rec, sad_rec, anger_rec]"
  have ne: "?rs \<noteq> []" by simp
  have s: "dominant_emotion sad_rec \<in> set EMOTION_CONFIG_keys"
    by (simp add: sad_rec_def EMOTION_CONFIG_keys_def)
  have a: "dominant_emotion anger_rec \<in> set EMOTION_CONFIG_keys"
    by (simp add: anger_rec_def EMOTION_CONFIG_keys_def)
  have canon: "\<forall>r\<in>set ?rs. dominant_emotion r \<in> set EMOTION_CONFIG_keys"
    using s a by simp
  have ds: "map dominant_emotion ?rs = [''Sadness'', ''Anger'', ''Sadness'', ''Anger'']"
    by (simp add: sad_rec_def anger_rec_def)
  from most_common_mode [OF ne canon] obtain m where
    m: "most_common ?rs = Inr m" and
    tie: "\<forall>l. l \<noteq> m \<and> count_list (map dominant_emotion ?rs) l =
            count_list (map dominant_emotion ?rs) m \<longrightarrow> canonical_index m < canonical_index l"
    by blast
  from m most_common_example have "m = ''Anger''" by simp
  with tie [rule_format, of "''Sadness''"] have "canonical_index ''Anger'' < canonical_index ''Sadness''"
    unfolding ds by simp
  with ne s a most_common_example show ?thesis by blast
qed

end
